theory Spec2Isabelle
  imports Complex_Main "HOL-Library.AList"
begin

section \<open>JavaScript values\<close>

text \<open>
  The catalog server (\<^verbatim>\<open>src/index.js\<close>) works on loosely typed spreadsheet cells.
  A cell is \<^verbatim>\<open>undefined\<close> (no such column), \<^verbatim>\<open>null\<close> (empty cell), a boolean, a
  number or a string.

  Numbers: a finite number is modelled by its exact rational value; \<^verbatim>\<open>NaN\<close> and the two
  infinities are values of their own.  The rounding of IEEE doubles (with it overflow and
  underflow of a literal) and the sign of zero are outside this model.

  Strings are sequences of 8-bit characters, and the text the model speaks about is ASCII
  text: white space and the case of letters are the ASCII ones.  (JavaScript also trims
  U+00A0 and other Unicode white space and folds the case of accented letters.)
\<close>

datatype jsnum = NaN | Fin rat | PosInf | NegInf

datatype jsval = JUndef | JNull | JBool bool | JNum jsnum | JStr string

fun truthy :: "jsval \<Rightarrow> bool" where
  "truthy JUndef = False"
| "truthy JNull = False"
| "truthy (JBool b) = b"
| "truthy (JNum NaN) = False"
| "truthy (JNum (Fin r)) = (r \<noteq> 0)"
| "truthy (JNum PosInf) = True"
| "truthy (JNum NegInf) = True"
| "truthy (JStr s) = (s \<noteq> [])"

text \<open>\<^verbatim>\<open>v == null\<close>.\<close>

fun nullish :: "jsval \<Rightarrow> bool" where
  "nullish JUndef = True"
| "nullish JNull = True"
| "nullish _ = False"

text \<open>The operator \<^verbatim>\<open>a || b\<close>.\<close>

definition js_or :: "jsval \<Rightarrow> jsval \<Rightarrow> jsval" where
  "js_or a b = (if truthy a then a else b)"

subsection \<open>Strings\<close>

definition is_space :: "char \<Rightarrow> bool" where
  "is_space c = (c \<in> set [CHR 0x09, CHR 0x0A, CHR 0x0B, CHR 0x0C, CHR 0x0D, CHR '' ''])"

definition is_digit :: "char \<Rightarrow> bool" where
  "is_digit c = (c \<in> set ''0123456789'')"

definition trim :: "string \<Rightarrow> string" where
  "trim s = rev (dropWhile is_space (rev (dropWhile is_space s)))"

definition lower_char :: "char \<Rightarrow> char" where
  "lower_char c =
     (case map_of (zip ''ABCDEFGHIJKLMNOPQRSTUVWXYZ'' ''abcdefghijklmnopqrstuvwxyz'') c of
        Some d \<Rightarrow> d | None \<Rightarrow> c)"

definition upper_char :: "char \<Rightarrow> char" where
  "upper_char c =
     (case map_of (zip ''abcdefghijklmnopqrstuvwxyz'' ''ABCDEFGHIJKLMNOPQRSTUVWXYZ'') c of
        Some d \<Rightarrow> d | None \<Rightarrow> c)"

definition toLowerCase :: "string \<Rightarrow> string" where
  "toLowerCase s = map lower_char s"

definition toUpperCase :: "string \<Rightarrow> string" where
  "toUpperCase s = map upper_char s"

text \<open>\<^verbatim>\<open>s.startsWith(t)\<close> and \<^verbatim>\<open>s.includes(t)\<close> (here \<open>str_includes\<close>).\<close>

definition startsWith :: "string \<Rightarrow> string \<Rightarrow> bool" where
  "startsWith s t = (take (length t) s = t)"

fun str_includes :: "string \<Rightarrow> string \<Rightarrow> bool" where
  "str_includes [] t = (t = [])"
| "str_includes (c # s) t = (if startsWith (c # s) t then True else str_includes s t)"

text \<open>
  \<^verbatim>\<open>s.replace(/\s+/g, rep)\<close>: every maximal run of white space becomes one \<open>rep\<close>.
  The flag says whether the previous character belonged to a run.
\<close>

fun replace_ws_runs :: "string \<Rightarrow> bool \<Rightarrow> string \<Rightarrow> string" where
  "replace_ws_runs rep in_run [] = []"
| "replace_ws_runs rep in_run (c # cs) =
     (if is_space c then (if in_run then [] else rep) @ replace_ws_runs rep True cs
      else c # replace_ws_runs rep False cs)"

text \<open>\<^verbatim>\<open>s.replace(c, rep)\<close> with a string pattern of one character: the first
  occurrence only.\<close>

fun replace_first :: "char \<Rightarrow> string \<Rightarrow> string \<Rightarrow> string" where
  "replace_first c rep [] = []"
| "replace_first c rep (x # xs) = (if x = c then rep @ xs else x # replace_first c rep xs)"

text \<open>\<^verbatim>\<open>s.split(d)\<close> for a one-character separator; never empty.\<close>

fun split_on :: "char \<Rightarrow> string \<Rightarrow> string list" where
  "split_on d [] = [[]]"
| "split_on d (c # cs) =
     (if c = d then [] # split_on d cs
      else (case split_on d cs of [] \<Rightarrow> [[c]] | p # ps \<Rightarrow> (c # p) # ps))"

subsection \<open>Numbers from strings and back\<close>

definition digit_val :: "char \<Rightarrow> nat" where
  "digit_val c =
     (case map_of (zip ''0123456789abcdef'' [0, 1, 2, 3, 4, 5, 6, 7, 8, 9, 10, 11, 12, 13, 14, 15]) (lower_char c) of
        Some d \<Rightarrow> d | None \<Rightarrow> 0)"

definition is_radix_digit :: "nat \<Rightarrow> char \<Rightarrow> bool" where
  "is_radix_digit b c = (lower_char c \<in> set (take b ''0123456789abcdef''))"

definition digits_val :: "nat \<Rightarrow> string \<Rightarrow> nat" where
  "digits_val b ds = foldl (\<lambda>a c. b * a + digit_val c) 0 ds"

text \<open>The exponent part of a decimal literal: nothing, or \<^verbatim>\<open>e\<close>, an optional sign and
  digits up to the end of the string.\<close>

definition parse_exponent :: "string \<Rightarrow> int option" where
  "parse_exponent s =
     (case s of
        [] \<Rightarrow> Some 0
      | c # r \<Rightarrow>
          if lower_char c = CHR ''e'' then
            (let neg = startsWith r ''-'';
                 ds = (if startsWith r ''-'' then tl r else if startsWith r ''+'' then tl r else r)
             in if ds = [] then None
                else if list_all is_digit ds
                then Some (if neg then - int (digits_val 10 ds) else int (digits_val 10 ds))
                else None)
          else None)"

text \<open>An unsigned decimal literal: \<^verbatim>\<open>D+\<close>, \<^verbatim>\<open>D+.D*\<close> or \<^verbatim>\<open>.D+\<close>, then the exponent.\<close>

definition parse_unsigned :: "string \<Rightarrow> rat option" where
  "parse_unsigned s =
     (let ip = takeWhile is_digit s;
          r1 = dropWhile is_digit s;
          dot = startsWith r1 ''.'';
          fp = (if dot then takeWhile is_digit (tl r1) else []);
          r2 = (if dot then dropWhile is_digit (tl r1) else r1)
      in if ip = [] \<and> fp = [] then None
         else (case parse_exponent r2 of
                 None \<Rightarrow> None
               | Some e \<Rightarrow>
                   Some ((of_nat (digits_val 10 ip) + of_nat (digits_val 10 fp) / 10 ^ length fp)
                         * (if 0 \<le> e then 10 ^ nat e else 1 / 10 ^ nat (- e)))))"

text \<open>The literals \<^verbatim>\<open>0x..\<close>, \<^verbatim>\<open>0o..\<close> and \<^verbatim>\<open>0b..\<close>, which take no sign.\<close>

definition parse_radix :: "string \<Rightarrow> nat option" where
  "parse_radix s =
     (case s of
        z # x # ds \<Rightarrow>
          (case map_of [(CHR ''x'', 16), (CHR ''o'', 8), (CHR ''b'', 2)] (lower_char x) of
             None \<Rightarrow> None
           | Some b \<Rightarrow>
               if z = CHR ''0'' \<and> ds \<noteq> [] \<and> list_all (is_radix_digit b) ds
               then Some (digits_val b ds) else None)
      | _ \<Rightarrow> None)"

text \<open>
  \<^verbatim>\<open>Number(s)\<close> for a string: white space around the literal is ignored, the empty
  string is 0, \<^verbatim>\<open>Infinity\<close> with an optional sign is an infinity, anything that is not
  a numeric literal is \<^verbatim>\<open>NaN\<close>.
\<close>

definition str_to_num :: "string \<Rightarrow> jsnum" where
  "str_to_num s =
     (let t = trim s in
      if t = [] then Fin 0
      else if t \<in> set [''Infinity'', ''+Infinity''] then PosInf
      else if t = ''-Infinity'' then NegInf
      else (case parse_radix t of
              Some n \<Rightarrow> Fin (of_nat n)
            | None \<Rightarrow>
                (case (if startsWith t ''-'' then map_option uminus (parse_unsigned (tl t))
                       else if startsWith t ''+'' then parse_unsigned (tl t)
                       else parse_unsigned t) of
                   None \<Rightarrow> NaN
                 | Some r \<Rightarrow> Fin r)))"

text \<open>\<^verbatim>\<open>Number(v)\<close>.\<close>

fun js_Number :: "jsval \<Rightarrow> jsnum" where
  "js_Number JUndef = NaN"
| "js_Number JNull = Fin 0"
| "js_Number (JBool b) = Fin (if b then 1 else 0)"
| "js_Number (JNum n) = n"
| "js_Number (JStr s) = str_to_num s"

text \<open>
  Decimal digits of a natural number, and of a fraction in \<open>[0, 1)\<close> by long division.
  The fuel bounds the number of fractional digits; the denominator of the fraction is
  enough for every fraction with a finite decimal expansion.
\<close>

definition digit_char :: "nat \<Rightarrow> char" where
  "digit_char d = ''0123456789'' ! (d mod 10)"

function nat_digits :: "nat \<Rightarrow> string" where
  "nat_digits n = (if n < 10 then [digit_char n] else nat_digits (n div 10) @ [digit_char (n mod 10)])"
  by pat_completeness auto
termination
  by (relation "measure (\<lambda>n. n)") auto

declare nat_digits.simps [simp del]

fun frac_digits :: "nat \<Rightarrow> rat \<Rightarrow> string" where
  "frac_digits 0 r = []"
| "frac_digits (Suc n) r =
     (if r = 0 then []
      else digit_char (nat \<lfloor>10 * r\<rfloor>) # frac_digits n (10 * r - of_int \<lfloor>10 * r\<rfloor>))"

text \<open>
  \<^verbatim>\<open>String(n)\<close> for a number, in positional notation.  (JavaScript switches to exponent
  notation for very large and very small magnitudes; both forms read back as the same
  number and neither contains a vertical bar, which is all this program relies on.)
\<close>

fun num_to_string :: "jsnum \<Rightarrow> string" where
  "num_to_string NaN = ''NaN''"
| "num_to_string PosInf = ''Infinity''"
| "num_to_string NegInf = ''-Infinity''"
| "num_to_string (Fin r) =
     (if r < 0 then ''-'' else [])
     @ nat_digits (nat \<lfloor>\<bar>r\<bar>\<rfloor>)
     @ (if \<bar>r\<bar> = of_int \<lfloor>\<bar>r\<bar>\<rfloor> then []
        else ''.'' @ frac_digits (nat (snd (quotient_of r))) (\<bar>r\<bar> - of_int \<lfloor>\<bar>r\<bar>\<rfloor>))"

text \<open>\<^verbatim>\<open>String(v)\<close> and \<^verbatim>\<open>v.toString()\<close> on the values a cell can hold.\<close>

fun js_String :: "jsval \<Rightarrow> string" where
  "js_String JUndef = ''undefined''"
| "js_String JNull = ''null''"
| "js_String (JBool b) = (if b then ''true'' else ''false'')"
| "js_String (JNum n) = num_to_string n"
| "js_String (JStr s) = s"

section \<open>Field normalisation\<close>

text \<open>\<^verbatim>\<open>normModel\<close>: trim, collapse white space, and write a leading \<^verbatim>\<open>iphone\<close>
  (in any case) as \<^verbatim>\<open>iPhone\<close>.\<close>

definition normModel :: "jsval \<Rightarrow> string" where
  "normModel m =
     (if \<not> truthy m then []
      else (let s = replace_ws_runs '' '' False (trim (js_String m))
            in if toLowerCase (take 6 s) = ''iphone'' then ''iPhone'' @ drop 6 s else s))"

definition toIdFromModel :: "string \<Rightarrow> string" where
  "toIdFromModel m =
     filter (\<lambda>c. c \<in> set ''abcdefghijklmnopqrstuvwxyz0123456789-'')
       (replace_ws_runs ''-'' False (toLowerCase m))"

text \<open>\<^verbatim>\<open>safeNumber\<close>.  Both \<^verbatim>\<open>replace\<close> calls have a string pattern, so each acts on
  the first occurrence only.\<close>

definition safeNumber :: "jsval \<Rightarrow> jsval" where
  "safeNumber v =
     (case v of
        JNum n \<Rightarrow> JNum n
      | _ \<Rightarrow>
          if \<not> truthy v then JNull
          else (let s = replace_first CHR '','' ''.''
                          (replace_first CHR ''.'' []
                             (filter (\<lambda>c. c \<in> set ''0123456789.,-'') (js_String v)));
                    n = str_to_num s
                in if n = NaN then JNull else JNum n))"

text \<open>\<^verbatim>\<open>inferCategory\<close> (defined in the source, called nowhere).\<close>

definition inferCategory :: "jsval \<Rightarrow> string \<Rightarrow> string" where
  "inferCategory model fallback =
     (let m = toLowerCase (js_String model) in
      if str_includes m ''ipad'' then ''iPads''
      else if (if str_includes m ''macbook'' then True else str_includes m ''mac'') then ''MacBooks''
      else if str_includes m ''watch'' then ''Apple Watch''
      else fallback)"

section \<open>Rows and products\<close>

text \<open>
  A raw row, as the spreadsheet reader gives it: column names with their cells.  Reading a
  column the row does not have gives \<^verbatim>\<open>undefined\<close>.
\<close>

type_synonym raw_row = "(string \<times> jsval) list"

definition field :: "raw_row \<Rightarrow> string \<Rightarrow> jsval" where
  "field r k = (case map_of r k of Some v \<Rightarrow> v | None \<Rightarrow> JUndef)"

text \<open>The chain \<^verbatim>\<open>a1 || a2 || ... || an\<close>.\<close>

fun or_chain :: "jsval list \<Rightarrow> jsval" where
  "or_chain [] = JUndef"
| "or_chain [v] = v"
| "or_chain (v # w # vs) = or_chain (js_or v w # vs)"

text \<open>The workbook: the five sheets \<^verbatim>\<open>buildCatalog\<close> reads; a missing sheet is empty.\<close>

record workbook =
  prices_usados :: "raw_row list"
  prices_novos :: "raw_row list"
  colors_sheet :: "raw_row list"
  storages_sheet :: "raw_row list"
  products_sheet :: "raw_row list"

record row =
  r_id :: string
  r_model :: string
  r_storage_gb :: jsnum
  r_market :: string
  r_condition :: string
  r_price :: jsval
  r_currency :: string
  r_disponibilidade :: string

definition normRow :: "string \<Rightarrow> raw_row \<Rightarrow> string \<Rightarrow> row" where
  "normRow market r cond =
     (let model = normModel (or_chain [field r ''model'', field r ''product'',
                    field r ''product_name'', field r ''product_id'', field r ''modelo'']);
          ident = (if truthy (field r ''product_id'') then js_String (field r ''product_id'')
                   else toIdFromModel model);
          storage = js_Number (or_chain [field r ''storage_gb'', field r ''gb'',
                      field r ''storage'', field r ''armazenamento'']);
          m0 = toUpperCase (js_String (or_chain [field r ''market'', field r ''mercado'', JStr []]));
          mkt = (if m0 = [] then market else m0);
          price = safeNumber (or_chain [field r ''price'', field r ''price_kz'', field r ''kzs'',
                    field r ''preco'', field r ''valor'']);
          currency = toUpperCase (js_String (or_chain [field r ''currency'', field r ''moeda'',
                       JStr (if mkt = ''AO'' then ''AOA'' else ''USD'')]));
          disp = trim (js_String (or_chain [field r ''disponibilidade'',
                   field r ''Disponibilidade'', field r ''DISPONIBILIDADE'', JStr []]))
      in \<lparr>r_id = ident, r_model = model, r_storage_gb = storage, r_market = mkt,
          r_condition = cond, r_price = price, r_currency = currency,
          r_disponibilidade = disp\<rparr>)"

text \<open>The filter \<^verbatim>\<open>r => r.model && r.price\<close>.\<close>

definition retained :: "row \<Rightarrow> bool" where
  "retained r = (truthy (JStr (r_model r)) \<and> truthy (r_price r))"

definition usedRows :: "workbook \<Rightarrow> string \<Rightarrow> row list" where
  "usedRows wb market = filter retained (map (\<lambda>r. normRow market r ''usado'') (prices_usados wb))"

definition newRows :: "workbook \<Rightarrow> string \<Rightarrow> row list" where
  "newRows wb market = filter retained (map (\<lambda>r. normRow market r ''novo'') (prices_novos wb))"

text \<open>The record \<^verbatim>\<open>ensureProduct\<close> stores in \<^verbatim>\<open>byModel\<close>.\<close>

record base_product =
  b_id :: string
  b_model :: string
  b_type :: string
  b_rating :: rat
  b_reviews :: rat
  b_colors :: "jsval list"
  b_image :: jsval

text \<open>The nested conditional that gives a product its \<^verbatim>\<open>type\<close>.\<close>

definition product_type :: "string \<Rightarrow> string" where
  "product_type model =
     (if str_includes (toLowerCase model) ''iphone'' then ''iphone''
      else if str_includes (toLowerCase model) ''mac'' then ''macbook''
      else if str_includes (toLowerCase model) ''ipad'' then ''ipad''
      else ''acessorio'')"

text \<open>\<^verbatim>\<open>Math.round\<close> and the two synthesized attributes, from a draw \<open>u\<close> of
  \<^verbatim>\<open>Math.random()\<close>.\<close>

definition js_round :: "rat \<Rightarrow> rat" where
  "js_round x = of_int \<lfloor>x + 1 / 2\<rfloor>"

definition synth_rating :: "rat \<Rightarrow> rat" where
  "synth_rating u = js_round ((4 + u * 1) * 10) / 10"

definition synth_reviews :: "rat \<Rightarrow> rat" where
  "synth_reviews u = min 250 (of_int \<lfloor>50 + u * 200\<rfloor>)"

definition default_palette :: "jsval list" where
  "default_palette = [JStr ''#0b1020'', JStr ''#d4af37'', JStr ''#e5e7eb'', JStr ''#1d4ed8'']"

definition aux_model :: "raw_row \<Rightarrow> string" where
  "aux_model c = normModel (or_chain [field c ''model'', field c ''product_id'', field c ''product''])"

text \<open>
  \<^verbatim>\<open>ensureProduct\<close>.  The state is \<^verbatim>\<open>byModel\<close> (a map that keeps insertion order, here
  the list of its values) and the number of random draws made so far; \<open>rng\<close> is the
  sequence of values \<^verbatim>\<open>Math.random()\<close> returns.
\<close>

definition ensureProduct ::
  "workbook \<Rightarrow> (nat \<Rightarrow> rat) \<Rightarrow> row \<Rightarrow> base_product list \<times> nat \<Rightarrow> base_product list \<times> nat" where
  "ensureProduct wb rng rw st =
     (case st of (byModel, n) \<Rightarrow>
        if r_model rw \<in> set (map b_model byModel) then (byModel, n)
        else
          (let cs = filter truthy
                      (map (\<lambda>c. or_chain [field c ''color_hex'', field c ''hex'', field c ''color''])
                         (filter (\<lambda>c. aux_model c = r_model rw) (colors_sheet wb)));
               colors = (if cs = [] then default_palette else take 4 cs);
               image = (case find (\<lambda>p. aux_model p = r_model rw) (products_sheet wb) of
                          None \<Rightarrow> JNull
                        | Some ps \<Rightarrow>
                            if truthy (js_or (field ps ''image'') (field ps ''img''))
                            then js_or (field ps ''image'') (field ps ''img'') else JNull)
           in (byModel @
                 [\<lparr>b_id = r_id rw, b_model = r_model rw, b_type = product_type (r_model rw),
                   b_rating = synth_rating (rng n), b_reviews = synth_reviews (rng (n + 1)),
                   b_colors = colors, b_image = image\<rparr>],
               n + 2)))"

subsection \<open>The variant index\<close>

record variant =
  v_price :: jsval
  v_currency :: string

definition variant_key :: "row \<Rightarrow> string" where
  "variant_key r =
     r_model r @ ''|'' @ r_condition r @ ''|'' @ num_to_string (r_storage_gb r) @ ''|'' @ r_market r"

text \<open>
  \<^verbatim>\<open>addVar\<close>.  The index is a JavaScript object whose keys all contain a vertical bar, so
  its keys are enumerated in insertion order, and an assignment to an existing key keeps
  the key's place: an association list with update in place.
\<close>

definition addVar :: "row \<Rightarrow> (string \<times> variant) list \<Rightarrow> (string \<times> variant) list" where
  "addVar r vs = AList.update (variant_key r) \<lparr>v_price = r_price r, v_currency = r_currency r\<rparr> vs"

text \<open>
  The destructuring \<^verbatim>\<open>const [m,c,gb,mkt] = k.split('|')\<close>: the first four parts of
  the key.  With fewer than four parts \<^verbatim>\<open>mkt\<close> is \<^verbatim>\<open>undefined\<close> and no comparison of
  the loops below succeeds.
\<close>

definition key_parts :: "string \<Rightarrow> (string \<times> string \<times> string \<times> string) option" where
  "key_parts k =
     (case split_on CHR ''|'' k of
        m # c # gb # mkt # _ \<Rightarrow> Some (m, c, gb, mkt)
      | _ \<Rightarrow> None)"

text \<open>A \<^verbatim>\<open>Set\<close> of numbers in insertion order; \<^verbatim>\<open>NaN\<close> is equal to itself there.\<close>

definition set_add :: "'a \<Rightarrow> 'a list \<Rightarrow> 'a list" where
  "set_add x xs = (if x \<in> set xs then xs else xs @ [x])"

text \<open>
  \<^verbatim>\<open>sort((a,b) => a-b)\<close>.  Where the comparator is consistent (no \<^verbatim>\<open>NaN\<close> among the
  elements) every sorting algorithm gives the same result.  With \<^verbatim>\<open>NaN\<close> among several
  elements the language leaves the order to the implementation; the model then takes the
  order of a stable insertion sort that moves an element past those its difference with is
  positive, which need not be the order of a given engine, and no property below is
  stated for that case.
\<close>

fun num_sub :: "jsnum \<Rightarrow> jsnum \<Rightarrow> jsnum" where
  "num_sub NaN b = NaN"
| "num_sub a NaN = NaN"
| "num_sub (Fin a) (Fin b) = Fin (a - b)"
| "num_sub PosInf PosInf = NaN"
| "num_sub NegInf NegInf = NaN"
| "num_sub PosInf b = PosInf"
| "num_sub NegInf b = NegInf"
| "num_sub a PosInf = NegInf"
| "num_sub a NegInf = PosInf"

fun num_pos :: "jsnum \<Rightarrow> bool" where
  "num_pos (Fin a) = (0 < a)"
| "num_pos PosInf = True"
| "num_pos _ = False"

fun insert_sorted :: "jsnum \<Rightarrow> jsnum list \<Rightarrow> jsnum list" where
  "insert_sorted x [] = [x]"
| "insert_sorted x (y # ys) =
     (if num_pos (num_sub x y) then y # insert_sorted x ys else x # y # ys)"

definition sort_numbers :: "jsnum list \<Rightarrow> jsnum list" where
  "sort_numbers xs = foldr insert_sorted xs []"

text \<open>
  The body of the loop over \<^verbatim>\<open>Object.keys(variants)\<close> that fills \<^verbatim>\<open>storSetUsed\<close> and
  \<^verbatim>\<open>storSetNew\<close> for the product \<open>model\<close>.
\<close>

definition stor_step :: "string \<Rightarrow> string \<Rightarrow> string \<Rightarrow> jsnum list \<times> jsnum list \<Rightarrow> jsnum list \<times> jsnum list" where
  "stor_step model market k st =
     (case st of (su, sn) \<Rightarrow>
        (case key_parts k of
           Some (m, c, gb, mkt) \<Rightarrow>
             if m = model \<and> mkt = market
             then (if c = ''usado'' then set_add (str_to_num gb) su else su,
                   if c = ''novo'' then set_add (str_to_num gb) sn else sn)
             else (su, sn)
         | None \<Rightarrow> (su, sn)))"

definition stor_sets :: "string \<Rightarrow> string \<Rightarrow> (string \<times> variant) list \<Rightarrow> jsnum list \<times> jsnum list" where
  "stor_sets model market vs = fold (stor_step model market) (map fst vs) ([], [])"

record product =
  p_id :: string
  p_model :: string
  p_type :: string
  p_rating :: rat
  p_reviews :: rat
  p_colors :: "jsval list"
  p_image :: jsval
  p_usado :: "jsnum list"
  p_novo :: "jsnum list"

text \<open>One round of the loop over \<^verbatim>\<open>byModel.values()\<close>: nothing for a product with no
  storage in the market, the finished product otherwise.\<close>

definition product_out :: "string \<Rightarrow> (string \<times> variant) list \<Rightarrow> base_product \<Rightarrow> product list" where
  "product_out market vs p =
     (case stor_sets (b_model p) market vs of (su, sn) \<Rightarrow>
        if su = [] \<and> sn = [] then []
        else [\<lparr>p_id = b_id p, p_model = b_model p, p_type = b_type p, p_rating = b_rating p,
               p_reviews = b_reviews p, p_colors = take 4 (b_colors p),
               p_image = (if truthy (b_image p) then b_image p
                          else JStr (''/public/products/'' @ b_id p @ ''.png'')),
               p_usado = sort_numbers su, p_novo = sort_numbers sn\<rparr>])"

record catalog =
  products :: "product list"
  variants :: "(string \<times> variant) list"

definition byModel :: "workbook \<Rightarrow> string \<Rightarrow> (nat \<Rightarrow> rat) \<Rightarrow> base_product list" where
  "byModel wb market rng =
     fst (fold (ensureProduct wb rng) (usedRows wb market @ newRows wb market) ([], 0))"

definition buildCatalog :: "workbook \<Rightarrow> string \<Rightarrow> (nat \<Rightarrow> rat) \<Rightarrow> catalog" where
  "buildCatalog wb market rng =
     (let vs = fold addVar (usedRows wb market @ newRows wb market) []
      in \<lparr>products = concat (map (product_out market vs) (byModel wb market rng)),
          variants = vs\<rparr>)"

section \<open>The featured selection\<close>

text \<open>
  The handler of \<^verbatim>\<open>GET /api/featured\<close>.  What it reads from outside is made a
  parameter: the query (\<^verbatim>\<open>undefined\<close> for a parameter the request does not have), the
  workbook (\<open>None\<close> when the file does not exist; both reads of one request see the same
  file), the \<^verbatim>\<open>models\<close> array of \<^verbatim>\<open>config/featured.json\<close> (empty when there is none),
  the base URL of the request and the random draws.
\<close>

record query =
  q_market :: jsval
  q_city :: jsval
  q_count :: jsval

datatype error = XLSX_not_found | Failed_featured

text \<open>\<^verbatim>\<open>minPriceForModel\<close>: one pass over the keys of the index.\<close>

fun num_less :: "jsnum \<Rightarrow> jsnum \<Rightarrow> bool" where
  "num_less NaN b = False"
| "num_less a NaN = False"
| "num_less (Fin a) (Fin b) = (a < b)"
| "num_less NegInf NegInf = False"
| "num_less NegInf b = True"
| "num_less a NegInf = False"
| "num_less PosInf b = False"
| "num_less a PosInf = True"

definition min_step :: "string \<Rightarrow> string \<Rightarrow> string \<times> variant \<Rightarrow> jsval \<times> string \<Rightarrow> jsval \<times> string" where
  "min_step model market kv st =
     (case st of (mn, currency) \<Rightarrow>
        (case key_parts (fst kv) of
           Some (m, cond, gb, mkt) \<Rightarrow>
             if m = model \<and> mkt = market
             then (case v_price (snd kv) of
                     JNum n \<Rightarrow>
                       (case mn of
                          JNum m0 \<Rightarrow>
                            if num_less n m0 then (JNum n, v_currency (snd kv)) else (mn, currency)
                        | _ \<Rightarrow> (JNum n, v_currency (snd kv)))
                   | _ \<Rightarrow> (mn, currency))
             else (mn, currency)
         | None \<Rightarrow> (mn, currency)))"

definition minPriceForModel :: "(string \<times> variant) list \<Rightarrow> string \<Rightarrow> string \<Rightarrow> jsval \<times> string" where
  "minPriceForModel vs market model = fold (min_step model market) vs (JNull, ''AOA'')"

text \<open>The set \<^verbatim>\<open>modelsAvailable\<close>, from the second scan of the two price sheets.\<close>

definition avail_step :: "string \<Rightarrow> raw_row \<Rightarrow> string list \<Rightarrow> string list" where
  "avail_step city r acc =
     (let model = normModel (or_chain [field r ''model'', field r ''Model'', JStr []]);
          disponibilidade = toLowerCase (js_String
            (or_chain [field r ''disponibilidade'', field r ''Disponibilidade'', JStr []]))
      in if model \<noteq> [] \<and> str_includes disponibilidade city then set_add model acc else acc)"

definition modelsAvailable :: "workbook \<Rightarrow> string \<Rightarrow> string list" where
  "modelsAvailable wb city = fold (avail_step city) (prices_usados wb @ prices_novos wb) []"

record item =
  it_id :: string
  it_model :: string
  it_image :: jsval
  it_min_price :: jsval
  it_currency :: string

text \<open>
  One featured item.  \<^verbatim>\<open>p.image?.startsWith('/')\<close> is a call of a method that only
  strings have: on a number or a boolean it throws, and the handler answers with
  \<^verbatim>\<open>failed_featured\<close>.
\<close>

definition absolute_image :: "string \<Rightarrow> jsval \<Rightarrow> error + jsval" where
  "absolute_image baseUrl img =
     (case img of
        JStr s \<Rightarrow> Inr (if startsWith s ''/'' then JStr (baseUrl @ s) else JStr s)
      | JNum n \<Rightarrow> Inl Failed_featured
      | JBool b \<Rightarrow> Inl Failed_featured
      | _ \<Rightarrow> Inr img)"

definition to_item :: "(string \<times> variant) list \<Rightarrow> string \<Rightarrow> string \<Rightarrow> product \<Rightarrow> error + item" where
  "to_item vs market baseUrl p =
     (case absolute_image baseUrl (p_image p) of
        Inl e \<Rightarrow> Inl e
      | Inr img \<Rightarrow>
          Inr \<lparr>it_id = p_id p, it_model = p_model p, it_image = img,
               it_min_price = fst (minPriceForModel vs market (p_model p)),
               it_currency = snd (minPriceForModel vs market (p_model p))\<rparr>)"

text \<open>\<^verbatim>\<open>xs.map(f)\<close> where \<open>f\<close> may throw: the first exception ends the loop.\<close>

fun map_throwing :: "('a \<Rightarrow> error + 'b) \<Rightarrow> 'a list \<Rightarrow> error + 'b list" where
  "map_throwing f [] = Inr []"
| "map_throwing f (x # xs) =
     (case f x of
        Inl e \<Rightarrow> Inl e
      | Inr y \<Rightarrow> (case map_throwing f xs of Inl e \<Rightarrow> Inl e | Inr ys \<Rightarrow> Inr (y # ys)))"

text \<open>
  The ordering.  \<^verbatim>\<open>mapByModel\<close> holds, for a model, the last item with that model;
  \<^verbatim>\<open>ordered.includes(it)\<close> compares object identities, which for the items of one
  request (one per model) is equality of the records.
\<close>

definition mapByModel_get :: "item list \<Rightarrow> jsval \<Rightarrow> item option" where
  "mapByModel_get items m =
     (case m of JStr s \<Rightarrow> find (\<lambda>it. it_model it = s) (rev items) | _ \<Rightarrow> None)"

definition ordered_items :: "jsval list \<Rightarrow> item list \<Rightarrow> item list" where
  "ordered_items preferred items =
     fold set_add items
       (concat (map (\<lambda>m. case mapByModel_get items m of None \<Rightarrow> [] | Some it \<Rightarrow> [it]) preferred))"

text \<open>\<^verbatim>\<open>Math.max(1, Math.min(20, Number(req.query.count)||8))\<close>.\<close>

fun num_min :: "jsnum \<Rightarrow> jsnum \<Rightarrow> jsnum" where
  "num_min NaN b = NaN"
| "num_min a NaN = NaN"
| "num_min (Fin a) (Fin b) = Fin (min a b)"
| "num_min NegInf b = NegInf"
| "num_min a NegInf = NegInf"
| "num_min PosInf b = b"
| "num_min a PosInf = a"

fun num_max :: "jsnum \<Rightarrow> jsnum \<Rightarrow> jsnum" where
  "num_max NaN b = NaN"
| "num_max a NaN = NaN"
| "num_max (Fin a) (Fin b) = Fin (max a b)"
| "num_max PosInf b = PosInf"
| "num_max a PosInf = PosInf"
| "num_max NegInf b = b"
| "num_max a NegInf = a"

definition clamp_count :: "jsval \<Rightarrow> jsnum" where
  "clamp_count c =
     num_max (Fin 1) (num_min (Fin 20)
       (js_Number (js_or (JNum (js_Number c)) (JNum (Fin 8)))))"

text \<open>\<^verbatim>\<open>xs.slice(0, n)\<close>: the bound is truncated to an integer, \<^verbatim>\<open>NaN\<close> counts as 0,
  a negative bound counts from the end.\<close>

fun slice0 :: "'a list \<Rightarrow> jsnum \<Rightarrow> 'a list" where
  "slice0 xs NaN = []"
| "slice0 xs PosInf = xs"
| "slice0 xs NegInf = []"
| "slice0 xs (Fin n) =
     (if n < 0 then take (length xs - nat \<lfloor>- n\<rfloor>) xs else take (nat \<lfloor>n\<rfloor>) xs)"

record response =
  res_market :: string
  res_count :: jsnum
  res_items :: "item list"

text \<open>The items before they are ordered: the available products, each with its
  minimum price, those without one left out.\<close>

definition featured_items ::
  "workbook \<Rightarrow> string \<Rightarrow> string \<Rightarrow> string \<Rightarrow> (nat \<Rightarrow> rat) \<Rightarrow> error + item list" where
  "featured_items wb market city baseUrl rng =
     (let cat = buildCatalog wb market rng;
          avail = modelsAvailable wb city
      in case map_throwing (to_item (variants cat) market baseUrl)
                (filter (\<lambda>p. p_model p \<in> set avail) (products cat)) of
           Inl e \<Rightarrow> Inl e
         | Inr its \<Rightarrow> Inr (filter (\<lambda>it. \<not> nullish (it_min_price it)) its))"

definition featured ::
  "query \<Rightarrow> workbook option \<Rightarrow> jsval list \<Rightarrow> string \<Rightarrow> (nat \<Rightarrow> rat) \<Rightarrow> error + response" where
  "featured q file models baseUrl rng =
     (let market = toUpperCase (js_String (js_or (q_market q) (JStr ''AO'')));
          city = toLowerCase (js_String (js_or (q_city q) (JStr ''Luanda'')))
      in case file of
           None \<Rightarrow> Inl XLSX_not_found
         | Some wb \<Rightarrow>
             (case featured_items wb market city baseUrl rng of
                Inl e \<Rightarrow> Inl e
              | Inr items \<Rightarrow>
                  (let ordered = ordered_items (filter truthy models) items;
                       count = clamp_count (q_count q)
                   in Inr \<lparr>res_market = market, res_count = count,
                           res_items = slice0 ordered count\<rparr>)))"

section \<open>Auxiliary definitions for the properties\<close>

text \<open>
  The number parser as the specification words it: all periods are removed, then the
  first comma becomes the decimal point.  It differs from \<open>safeNumber\<close> in that one step.
\<close>

definition parseLocalizedNumber_spec :: "jsval \<Rightarrow> jsval" where
  "parseLocalizedNumber_spec v =
     (case v of
        JNum n \<Rightarrow> JNum n
      | _ \<Rightarrow>
          if \<not> truthy v then JNull
          else (let s = replace_first CHR '','' ''.''
                          (filter (\<lambda>c. c \<noteq> CHR ''.'')
                             (filter (\<lambda>c. c \<in> set ''0123456789.,-'') (js_String v)));
                    n = str_to_num s
                in if n = NaN then JNull else JNum n))"

text \<open>What \<^verbatim>\<open>ensureProduct\<close> establishes for a product it creates.\<close>

definition base_ok :: "(nat \<Rightarrow> rat) \<Rightarrow> base_product \<Rightarrow> bool" where
  "base_ok rng b = (b_type b = product_type (b_model b)
     \<and> (\<exists>k. b_rating b = synth_rating (rng k)) \<and> (\<exists>k. b_reviews b = synth_reviews (rng k)))"

text \<open>Inputs the properties below are tried on: a sequence of draws, and a workbook whose
  used-price sheet has one model twice, the first time with the price \<^verbatim>\<open>"0"\<close>.\<close>

definition draws_half :: "nat \<Rightarrow> rat" where
  "draws_half n = 1 / 2"

definition wb_ipad_mac :: workbook where
  "wb_ipad_mac =
     \<lparr>prices_usados = [[(''model'', JStr ''iPad Mac Dock''), (''storage_gb'', JNum (Fin 64)),
                         (''price'', JStr ''0'')],
                       [(''model'', JStr ''iPad Mac Dock''), (''storage_gb'', JNum (Fin 64)),
                         (''price'', JNum (Fin 1000))]],
      prices_novos = [], colors_sheet = [], storages_sheet = [], products_sheet = []\<rparr>"

text \<open>The workbook without the rows of the two price sheets whose price is the number 0.\<close>

definition without_zero_price :: "string \<Rightarrow> workbook \<Rightarrow> workbook" where
  "without_zero_price market wb =
     wb\<lparr>prices_usados := filter (\<lambda>r. r_price (normRow market r ''usado'') \<noteq> JNum (Fin 0)) (prices_usados wb),
        prices_novos := filter (\<lambda>r. r_price (normRow market r ''novo'') \<noteq> JNum (Fin 0)) (prices_novos wb)\<rparr>"

text \<open>
  The test \<^verbatim>\<open>m===model && mkt===market\<close> of \<^verbatim>\<open>minPriceForModel\<close>, on an entry of the
  index.  This is the code's reading of a key; it is not the model and the market of the
  row the entry came from, and it is used below only to say what the loop does.
\<close>

definition key_matches :: "string \<Rightarrow> string \<Rightarrow> string \<times> variant \<Rightarrow> bool" where
  "key_matches model market e =
     (case key_parts (fst e) of
        Some (m, c, gb, mkt) \<Rightarrow> m = model \<and> mkt = market
      | None \<Rightarrow> False)"

text \<open>
  The entries of the index that belong to a model in a market: those stored under the key
  of a retained row with that model and that market (of either condition and any storage).
  The model and the market are the row's own fields; no key is taken apart.
\<close>

definition model_entries ::
  "row list \<Rightarrow> string \<Rightarrow> string \<Rightarrow> (string \<times> variant) list \<Rightarrow> (string \<times> variant) list" where
  "model_entries rows model market vs =
     filter (\<lambda>e. fst e \<in> set (map variant_key
                                (filter (\<lambda>r. r_model r = model \<and> r_market r = market) rows))) vs"

text \<open>An entry whose price is a number other than \<^verbatim>\<open>NaN\<close>.\<close>

definition priced :: "string \<times> variant \<Rightarrow> bool" where
  "priced e = (case v_price (snd e) of JNum n \<Rightarrow> n \<noteq> NaN | _ \<Rightarrow> False)"

text \<open>
  The order the featured list is to have: for each preferred model in turn the items of
  that model, then the items of no preferred model, as they come.
\<close>

definition preferred_first :: "jsval list \<Rightarrow> item list \<Rightarrow> item list" where
  "preferred_first preferred items =
     concat (map (\<lambda>m. filter (\<lambda>it. JStr (it_model it) = m) items) preferred)
     @ filter (\<lambda>it. JStr (it_model it) \<notin> set preferred) items"

text \<open>A workbook with four models, three of them available in Luanda, a query that only
  sets the count, and the three featured items of that workbook.\<close>

definition wb_demo :: workbook where
  "wb_demo =
     \<lparr>prices_usados =
        [[(''model'', JStr ''iPhone 13''), (''storage_gb'', JNum (Fin 128)),
          (''price'', JStr ''450.000,00''), (''disponibilidade'', JStr ''Luanda, Benguela'')],
         [(''model'', JStr ''iPad 9''), (''storage_gb'', JNum (Fin 64)),
          (''price'', JStr ''300.000,00''), (''disponibilidade'', JStr ''Luanda'')]],
      prices_novos =
        [[(''model'', JStr ''iPhone 13''), (''storage_gb'', JNum (Fin 128)),
          (''price'', JStr ''600.000,00'')],
         [(''model'', JStr ''MacBook Air''), (''gb'', JStr ''512''),
          (''price'', JNum (Fin 900000)), (''Disponibilidade'', JStr ''LUANDA'')],
         [(''model'', JStr ''Apple Watch''), (''storage_gb'', JNum (Fin 32)),
          (''price'', JStr ''90.000,00''), (''disponibilidade'', JStr ''Huambo'')]],
      colors_sheet = [], storages_sheet = [], products_sheet = []\<rparr>"

definition q_demo :: "jsval \<Rightarrow> query" where
  "q_demo n = \<lparr>q_market = JUndef, q_city = JUndef, q_count = n\<rparr>"

definition items_demo :: "item list" where
  "items_demo =
     [\<lparr>it_id = ''iphone-13'', it_model = ''iPhone 13'',
        it_image = JStr ''http://h/public/products/iphone-13.png'',
        it_min_price = JNum (Fin 450000), it_currency = ''AOA''\<rparr>,
      \<lparr>it_id = ''ipad-9'', it_model = ''iPad 9'',
        it_image = JStr ''http://h/public/products/ipad-9.png'',
        it_min_price = JNum (Fin 300000), it_currency = ''AOA''\<rparr>,
      \<lparr>it_id = ''macbook-air'', it_model = ''MacBook Air'',
        it_image = JStr ''http://h/public/products/macbook-air.png'',
        it_min_price = JNum (Fin 900000), it_currency = ''AOA''\<rparr>]"

text \<open>A number that is an integer, and a row whose model and market have no vertical bar.\<close>

definition is_integer :: "jsnum \<Rightarrow> bool" where
  "is_integer n = (case n of Fin x \<Rightarrow> x = of_int \<lfloor>x\<rfloor> | _ \<Rightarrow> False)"

definition bar_free :: "row \<Rightarrow> bool" where
  "bar_free r = (CHR ''|'' \<notin> set (r_model r) \<and> CHR ''|'' \<notin> set (r_market r))"

text \<open>
  A row that is not of the given model and market, and whose key nevertheless begins like
  the keys of that model or ends like the keys of that market: the row's model is the
  given model followed by a vertical bar and more text, or the row has the given model and
  its market is the given market followed by a vertical bar and more text.
\<close>

definition key_clash :: "string \<Rightarrow> string \<Rightarrow> row \<Rightarrow> bool" where
  "key_clash model market r =
     (startsWith (r_model r) (model @ ''|'')
      \<or> (r_model r = model \<and> startsWith (r_market r) (market @ ''|'')))"

text \<open>
  More workbooks: one model with the storages 256, 128 and 256 again in the market AO
  and 64 in the market US, beside a row of another model with no storage column and a row
  of a third model with a vertical bar in its name; a row with no storage column alone; a model with a vertical bar in its name; a row whose model
  is in the column \<^verbatim>\<open>modelo\<close>; and a model beside a second one whose name goes on after
  a bar.
\<close>

definition wb_storages :: workbook where
  "wb_storages =
     \<lparr>prices_usados =
        [[(''model'', JStr ''iPhone 13''), (''storage_gb'', JNum (Fin 256)), (''price'', JNum (Fin 500000))],
         [(''model'', JStr ''iPhone 13''), (''storage_gb'', JStr ''128''), (''price'', JNum (Fin 450000))],
         [(''model'', JStr ''iPhone 13''), (''storage_gb'', JNum (Fin 256)), (''price'', JNum (Fin 480000))],
         [(''model'', JStr ''iPhone 13''), (''storage_gb'', JNum (Fin 64)), (''market'', JStr ''us''),
          (''price'', JNum (Fin 400))]],
      prices_novos =
        [[(''model'', JStr ''iPhone 13''), (''storage_gb'', JNum (Fin 512)), (''price'', JNum (Fin 900000))],
         [(''model'', JStr ''AirPods''), (''price'', JNum (Fin 90000))],
         [(''model'', JStr ''Case|Blue''), (''price'', JNum (Fin 5000))]],
      colors_sheet = [], storages_sheet = [], products_sheet = []\<rparr>"

definition wb_no_storage :: workbook where
  "wb_no_storage =
     \<lparr>prices_usados = [[(''model'', JStr ''iPhone 13''), (''price'', JNum (Fin 450000))]],
      prices_novos = [], colors_sheet = [], storages_sheet = [], products_sheet = []\<rparr>"

definition wb_bar :: workbook where
  "wb_bar =
     \<lparr>prices_usados = [[(''model'', JStr ''A|B''), (''storage_gb'', JNum (Fin 128)),
                         (''price'', JNum (Fin 450000))]],
      prices_novos = [], colors_sheet = [], storages_sheet = [], products_sheet = []\<rparr>"

definition wb_alias :: workbook where
  "wb_alias =
     \<lparr>prices_usados = [[(''modelo'', JStr ''iPhone 13''), (''storage_gb'', JNum (Fin 128)),
                         (''price'', JStr ''450.000,00''), (''disponibilidade'', JStr ''Luanda'')]],
      prices_novos = [], colors_sheet = [], storages_sheet = [], products_sheet = []\<rparr>"

definition wb_cross :: workbook where
  "wb_cross =
     \<lparr>prices_usados =
        [[(''model'', JStr ''iPhone 13''), (''storage_gb'', JNum (Fin 128)),
          (''price'', JNum (Fin 500000)), (''disponibilidade'', JStr ''Luanda'')],
         [(''model'', JStr ''iPhone 13|Pro|256|AO''), (''storage_gb'', JNum (Fin 64)),
          (''price'', JNum (Fin 100000))]],
      prices_novos = [], colors_sheet = [], storages_sheet = [], products_sheet = []\<rparr>"

section \<open>Properties\<close>

subsection \<open>Evaluation\<close>

lemmas str_eval = trim_def is_space_def is_digit_def lower_char_def upper_char_def
  toLowerCase_def toUpperCase_def startsWith_def
lemmas num_eval = digit_val_def is_radix_digit_def digits_val_def parse_exponent_def
  parse_unsigned_def parse_radix_def str_to_num_def digit_char_def nat_digits.simps
lemmas field_eval = field_def js_or_def normModel_def toIdFromModel_def safeNumber_def
lemmas catalog_eval = normRow_def retained_def usedRows_def newRows_def product_type_def
  ensureProduct_def default_palette_def aux_model_def variant_key_def addVar_def key_parts_def
  set_add_def sort_numbers_def stor_step_def stor_sets_def product_out_def byModel_def
  buildCatalog_def

lemma floor_rat_numeral_div [simp]:
  "\<lfloor>(numeral a / numeral b :: rat)\<rfloor> = numeral a div numeral b"
  using floor_divide_of_int_eq [of "numeral a" "numeral b", where ?'a = rat] by simp

lemma safeNumber_examples:
  "safeNumber (JStr ''1.299,50'') = JNum (Fin (129950 / 100))"
  "safeNumber (JStr []) = JNull"
  "safeNumber (JNum (Fin 42)) = JNum (Fin 42)"
  "safeNumber JNull = JNull"
  "safeNumber JUndef = JNull"
  by (simp_all add: str_eval num_eval field_eval)

text \<open>A string with no digit is stripped to the empty string, which \<^verbatim>\<open>Number\<close> reads as 0.\<close>

lemma safeNumber_no_digit: "safeNumber (JStr ''n/a'') = JNum (Fin 0)"
  by (simp add: str_eval num_eval field_eval)

lemma replace_first_single:
  "length (filter (\<lambda>x. x = c) s) \<le> 1 \<Longrightarrow> replace_first c [] s = filter (\<lambda>x. x \<noteq> c) s"
proof (induction s)
  case Nil
  then show ?case by simp
next
  case (Cons x s)
  show ?case
  proof (cases "x = c")
    case True
    with Cons.prems have "filter (\<lambda>x. x = c) s = []" by simp
    then have "filter (\<lambda>x. x \<noteq> c) s = s"
      by (simp add: filter_empty_conv filter_id_conv)
    with True show ?thesis by simp
  next
    case False
    with Cons show ?thesis by simp
  qed
qed

lemma safeNumber_one_period:
  assumes "length (filter (\<lambda>x. x = CHR ''.'') (js_String v)) \<le> 1"
  shows "safeNumber v = parseLocalizedNumber_spec v"
proof -
  let ?s = "filter (\<lambda>c. c \<in> set ''0123456789.,-'') (js_String v)"
  have "filter (\<lambda>x. x = CHR ''.'') (filter (\<lambda>c. c \<in> set ''0123456789.,-'') xs)
          = filter (\<lambda>x. x = CHR ''.'') xs" for xs
    by (induction xs) auto
  then have "length (filter (\<lambda>x. x = CHR ''.'') ?s) \<le> 1"
    using assms by simp
  then have "replace_first CHR ''.'' [] ?s = filter (\<lambda>x. x \<noteq> CHR ''.'') ?s"
    by (rule replace_first_single)
  then show ?thesis
    by (simp only: safeNumber_def parseLocalizedNumber_spec_def)
qed

text \<open>
  C1.  \<open>safeNumber\<close> is to remove all periods of the stripped string before it reads the
  number.  It removes the first one only: a price with two thousands separators,
  \<^verbatim>\<open>1.299.000,50\<close>, keeps a period, gets a second one from the comma, is not a number and
  comes out as \<^verbatim>\<open>null\<close>, where the specified parser gives 1299000.5.  (The three examples
  of the claim hold, \<open>safeNumber_examples\<close>, and the two parsers agree on every input with
  at most one period, \<open>safeNumber_one_period\<close>.)
\<close>

theorem safeNumber_second_period:
  "safeNumber (JStr ''1.299.000,50'') = JNull \<and>
   parseLocalizedNumber_spec (JStr ''1.299.000,50'') = JNum (Fin (129900050 / 100))"
  by (simp add: parseLocalizedNumber_spec_def str_eval num_eval field_eval)

text \<open>\<^verbatim>\<open>inferCategory\<close> is the function that looks for \<^verbatim>\<open>ipad\<close> first; it gives categories,
  and no product type comes from it.\<close>

lemma inferCategory_ipad_first: "inferCategory (JStr ''iPad Mac Dock'') fallback = ''iPads''"
  by (simp add: inferCategory_def str_eval)

text \<open>
  C2, as stated, fails: the model \<^verbatim>\<open>iPad Mac Dock\<close> contains \<^verbatim>\<open>ipad\<close> and \<^verbatim>\<open>mac\<close> and
  not \<^verbatim>\<open>iphone\<close>, and its type is \<^verbatim>\<open>macbook\<close>.
\<close>

theorem product_type_ipad_mac_counterexample:
  "str_includes (toLowerCase ''iPad Mac Dock'') ''ipad'' \<and>
   str_includes (toLowerCase ''iPad Mac Dock'') ''mac'' \<and>
   \<not> str_includes (toLowerCase ''iPad Mac Dock'') ''iphone'' \<and>
   product_type ''iPad Mac Dock'' = ''macbook'' \<and>
   product_type ''iPad Mac Dock'' \<noteq> ''ipad''"
  by (simp add: product_type_def str_eval)

lemma synth_rating_bounds:
  assumes "0 \<le> u" "u < 1"
  shows "4 \<le> synth_rating u \<and> synth_rating u \<le> 5 \<and> (\<exists>k::int. synth_rating u = of_int k / 10)"
proof -
  let ?k = "\<lfloor>(4 + u * 1) * 10 + 1 / 2\<rfloor>"
  have lo: "40 \<le> ?k" using assms by (simp add: le_floor_iff)
  have hi: "?k \<le> 50" using assms by (simp add: floor_le_iff)
  have eq: "synth_rating u = of_int ?k / 10"
    by (simp add: synth_rating_def js_round_def)
  have "(40::rat) \<le> of_int ?k" using lo by linarith
  then have a: "4 \<le> (of_int ?k :: rat) / 10" by simp
  have "of_int ?k \<le> (50::rat)" using hi by linarith
  then have b: "(of_int ?k :: rat) / 10 \<le> 5" by simp
  show ?thesis unfolding eq using a b by blast
qed

lemma synth_reviews_bounds:
  assumes "0 \<le> u" "u < 1"
  shows "\<exists>k::int. synth_reviews u = of_int k \<and> 50 \<le> k \<and> k < 250"
proof -
  let ?k = "\<lfloor>50 + u * 200\<rfloor>"
  have lo: "50 \<le> ?k" using assms by (simp add: le_floor_iff)
  have hi: "?k < 250" using assms by (simp add: floor_less_iff)
  have "(of_int ?k :: rat) \<le> 250" using hi by linarith
  then have "synth_reviews u = of_int ?k"
    by (simp add: synth_reviews_def)
  with lo hi show ?thesis by blast
qed

text \<open>
  C9, as stated, fails for the rating: the draw 0.99 gives 4.99, which rounds to 5.0.
\<close>

theorem synth_rating_reaches_five:
  "(0::rat) \<le> 99 / 100 \<and> (99 / 100 :: rat) < 1 \<and> synth_rating (99 / 100) = 5 \<and>
   \<not> synth_rating (99 / 100) < 5"
  by (simp add: synth_rating_def js_round_def)

subsection \<open>The product registry\<close>

lemma ensureProduct_step:
  "fst (ensureProduct wb rng rw (bm, n)) = bm \<and> r_model rw \<in> set (map b_model bm)
   \<or> (\<exists>b. fst (ensureProduct wb rng rw (bm, n)) = bm @ [b] \<and> b_model b = r_model rw
          \<and> r_model rw \<notin> set (map b_model bm) \<and> base_ok rng b)"
  by (auto simp: ensureProduct_def Let_def base_ok_def)

lemma fold_ensureProduct_models:
  "set (map b_model (fst (fold (ensureProduct wb rng) rows st)))
     = set (map b_model (fst st)) \<union> r_model ` set rows"
proof (induction rows arbitrary: st)
  case Nil
  then show ?case by simp
next
  case (Cons rw rows)
  obtain bm n where st: "st = (bm, n)" by (cases st)
  from ensureProduct_step [of wb rng rw bm n]
  have "set (map b_model (fst (ensureProduct wb rng rw st))) = insert (r_model rw) (set (map b_model bm))"
    unfolding st by auto
  then show ?case
    using Cons.IH [of "ensureProduct wb rng rw st"] st by auto
qed

lemma fold_ensureProduct_distinct:
  "distinct (map b_model (fst st)) \<Longrightarrow>
   distinct (map b_model (fst (fold (ensureProduct wb rng) rows st)))"
proof (induction rows arbitrary: st)
  case Nil
  then show ?case by simp
next
  case (Cons rw rows)
  obtain bm n where st: "st = (bm, n)" by (cases st)
  from ensureProduct_step [of wb rng rw bm n] Cons.prems
  have "distinct (map b_model (fst (ensureProduct wb rng rw st)))"
    unfolding st by auto
  then show ?case
    using Cons.IH [of "ensureProduct wb rng rw st"] by simp
qed

lemma fold_ensureProduct_ok:
  "list_all (base_ok rng) (fst st) \<Longrightarrow>
   list_all (base_ok rng) (fst (fold (ensureProduct wb rng) rows st))"
proof (induction rows arbitrary: st)
  case Nil
  then show ?case by simp
next
  case (Cons rw rows)
  obtain bm n where st: "st = (bm, n)" by (cases st)
  from ensureProduct_step [of wb rng rw bm n] Cons.prems
  have "list_all (base_ok rng) (fst (ensureProduct wb rng rw st))"
    unfolding st by auto
  then show ?case
    using Cons.IH [of "ensureProduct wb rng rw st"] by simp
qed

lemma byModel_models:
  "set (map b_model (byModel wb market rng)) = r_model ` set (usedRows wb market @ newRows wb market)"
  unfolding byModel_def
  using fold_ensureProduct_models [of wb rng "usedRows wb market @ newRows wb market" "([], 0)"]
  by (simp del: fold_append)

lemma byModel_distinct: "distinct (map b_model (byModel wb market rng))"
  unfolding byModel_def by (rule fold_ensureProduct_distinct) simp

lemma byModel_ok: "b \<in> set (byModel wb market rng) \<Longrightarrow> base_ok rng b"
  using fold_ensureProduct_ok [of rng "([], 0)" wb "usedRows wb market @ newRows wb market"]
  unfolding byModel_def by (simp add: list_all_iff del: fold_append)

lemma product_out_cases:
  "product_out market vs b = [] \<and> stor_sets (b_model b) market vs = ([], [])
   \<or> (\<exists>p. product_out market vs b = [p] \<and> p_model p = b_model b \<and> p_type p = b_type b
        \<and> p_rating p = b_rating b \<and> p_reviews p = b_reviews b \<and> p_id p = b_id b
        \<and> p_usado p = sort_numbers (fst (stor_sets (b_model b) market vs))
        \<and> p_novo p = sort_numbers (snd (stor_sets (b_model b) market vs))
        \<and> stor_sets (b_model b) market vs \<noteq> ([], []))"
  by (cases "stor_sets (b_model b) market vs") (auto simp: product_out_def)

lemma product_out_model: "p \<in> set (product_out market vs b) \<Longrightarrow> p_model p = b_model b"
  using product_out_cases [of market vs b] by auto

lemma products_from_byModel:
  assumes "p \<in> set (products (buildCatalog wb market rng))"
  shows "\<exists>b \<in> set (byModel wb market rng). product_out market (variants (buildCatalog wb market rng)) b = [p]"
proof -
  from assms obtain b where b: "b \<in> set (byModel wb market rng)"
    and p: "p \<in> set (product_out market (variants (buildCatalog wb market rng)) b)"
    by (auto simp: buildCatalog_def Let_def)
  from product_out_cases [of market "variants (buildCatalog wb market rng)" b] p
  have "product_out market (variants (buildCatalog wb market rng)) b = [p]" by auto
  with b show ?thesis by blast
qed

lemma map_p_model_concat:
  "map p_model (concat (map (product_out market vs) bs))
     = filter (\<lambda>m. m \<in> p_model ` set (concat (map (product_out market vs) bs))) (map b_model bs)"
  if "distinct (map b_model bs)"
  using that
proof (induction bs)
  case Nil
  then show ?case by simp
next
  case (Cons b bs)
  let ?rest = "concat (map (product_out market vs) bs)"
  have sub: "p_model ` set ?rest \<subseteq> b_model ` set bs"
    by (auto dest!: product_out_model)
  have bn: "b_model b \<notin> b_model ` set bs" using Cons.prems by simp
  have nb: "b_model b \<notin> p_model ` set ?rest" using sub bn by blast
  have rest_eq: "filter (\<lambda>m. m \<in> p_model ` set (product_out market vs b @ ?rest)) (map b_model bs)
        = filter (\<lambda>m. m \<in> p_model ` set ?rest) (map b_model bs)"
  proof (rule filter_cong [OF refl])
    fix m assume "m \<in> set (map b_model bs)"
    then have "m \<in> b_model ` set bs" by simp
    with bn have "m \<noteq> b_model b" by blast
    then show "(m \<in> p_model ` set (product_out market vs b @ ?rest)) = (m \<in> p_model ` set ?rest)"
      using product_out_cases [of market vs b] by auto
  qed
  from product_out_cases [of market vs b] show ?case
  proof
    assume "product_out market vs b = [] \<and> stor_sets (b_model b) market vs = ([], [])"
    then show ?thesis using Cons nb by simp
  next
    assume "\<exists>p. product_out market vs b = [p] \<and> p_model p = b_model b \<and> p_type p = b_type b
        \<and> p_rating p = b_rating b \<and> p_reviews p = b_reviews b \<and> p_id p = b_id b
        \<and> p_usado p = sort_numbers (fst (stor_sets (b_model b) market vs))
        \<and> p_novo p = sort_numbers (snd (stor_sets (b_model b) market vs))
        \<and> stor_sets (b_model b) market vs \<noteq> ([], [])"
    then obtain p where p: "product_out market vs b = [p]" "p_model p = b_model b" by blast
    have "map p_model ?rest = filter (\<lambda>m. m \<in> p_model ` set ?rest) (map b_model bs)"
      using Cons by simp
    then show ?thesis using p rest_eq by simp
  qed
qed

lemma products_distinct: "distinct (map p_model (products (buildCatalog wb market rng)))"
  using map_p_model_concat [OF byModel_distinct, of market _ wb market rng]
  by (simp add: buildCatalog_def Let_def byModel_distinct)

lemma product_attrs:
  assumes "p \<in> set (products (buildCatalog wb market rng))"
  shows "p_type p = product_type (p_model p)
     \<and> (\<exists>k. p_rating p = synth_rating (rng k)) \<and> (\<exists>k. p_reviews p = synth_reviews (rng k))"
proof -
  from products_from_byModel [OF assms] obtain b where
    b: "b \<in> set (byModel wb market rng)"
    and p: "product_out market (variants (buildCatalog wb market rng)) b = [p]" by blast
  from product_out_cases [of market "variants (buildCatalog wb market rng)" b] p
  have "p_model p = b_model b" "p_type p = b_type b" "p_rating p = b_rating b" "p_reviews p = b_reviews b"
    by auto
  with byModel_ok [OF b] show ?thesis by (simp add: base_ok_def)
qed

subsection \<open>Catalog properties\<close>

lemma catalog_ipad_mac:
  "buildCatalog wb_ipad_mac ''AO'' rng =
     \<lparr>products = [\<lparr>p_id = ''ipad-mac-dock'', p_model = ''iPad Mac Dock'', p_type = ''macbook'',
                    p_rating = synth_rating (rng 0), p_reviews = synth_reviews (rng 1),
                    p_colors = default_palette,
                    p_image = JStr ''/public/products/ipad-mac-dock.png'',
                    p_usado = [Fin 64], p_novo = []\<rparr>],
      variants = [(''iPad Mac Dock|usado|64|AO'', \<lparr>v_price = JNum (Fin 1000), v_currency = ''AOA''\<rparr>)]\<rparr>"
  by (simp add: wb_ipad_mac_def str_eval num_eval field_eval catalog_eval)

text \<open>
  C2, amended.  The type of every product of the catalog is inferred from its lower-cased
  model by substring checks in the order \<^verbatim>\<open>iphone\<close>, \<^verbatim>\<open>mac\<close>, \<^verbatim>\<open>ipad\<close>, else
  \<^verbatim>\<open>acessorio\<close> (there is no check for \<^verbatim>\<open>watch\<close>); so a model that contains both
  \<^verbatim>\<open>ipad\<close> and \<^verbatim>\<open>mac\<close> and not \<^verbatim>\<open>iphone\<close> has the type \<^verbatim>\<open>macbook\<close>.
\<close>

theorem product_type_order:
  assumes "p \<in> set (products (buildCatalog wb market rng))"
  shows "p_type p =
           (if str_includes (toLowerCase (p_model p)) ''iphone'' then ''iphone''
            else if str_includes (toLowerCase (p_model p)) ''mac'' then ''macbook''
            else if str_includes (toLowerCase (p_model p)) ''ipad'' then ''ipad''
            else ''acessorio'')
         \<and> (str_includes (toLowerCase (p_model p)) ''ipad''
              \<and> str_includes (toLowerCase (p_model p)) ''mac''
              \<and> \<not> str_includes (toLowerCase (p_model p)) ''iphone''
            \<longrightarrow> p_type p = ''macbook'')"
  using product_attrs [OF assms] by (simp add: product_type_def)

theorem product_type_order_witness:
  "hd (products (buildCatalog wb_ipad_mac ''AO'' draws_half))
     \<in> set (products (buildCatalog wb_ipad_mac ''AO'' draws_half))
   \<and> str_includes (toLowerCase (p_model (hd (products (buildCatalog wb_ipad_mac ''AO'' draws_half))))) ''ipad''
   \<and> str_includes (toLowerCase (p_model (hd (products (buildCatalog wb_ipad_mac ''AO'' draws_half))))) ''mac''
   \<and> \<not> str_includes (toLowerCase (p_model (hd (products (buildCatalog wb_ipad_mac ''AO'' draws_half))))) ''iphone''
   \<and> p_type (hd (products (buildCatalog wb_ipad_mac ''AO'' draws_half))) = ''macbook''"
  using product_type_order [of "hd (products (buildCatalog wb_ipad_mac ''AO'' draws_half))"
      wb_ipad_mac "''AO''" draws_half]
  by (simp add: catalog_ipad_mac str_eval)

text \<open>
  C9, amended.  When every random draw lies in \<open>[0, 1)\<close>, the rating of every product of
  the catalog is a multiple of 0.1 in the closed range \<open>[4.0, 5.0]\<close>, and its reviews value
  is an integer in \<open>[50, 250)\<close>.
\<close>

theorem synthesized_ranges:
  assumes "\<forall>n. 0 \<le> rng n \<and> rng n < 1"
    and "p \<in> set (products (buildCatalog wb market rng))"
  shows "4 \<le> p_rating p \<and> p_rating p \<le> 5 \<and> (\<exists>k::int. p_rating p = of_int k / 10)
       \<and> (\<exists>k::int. p_reviews p = of_int k \<and> 50 \<le> k \<and> k < 250)"
proof -
  from product_attrs [OF assms(2)] obtain i j where
    "p_rating p = synth_rating (rng i)" "p_reviews p = synth_reviews (rng j)" by blast
  moreover have "0 \<le> rng i" "rng i < 1" "0 \<le> rng j" "rng j < 1" using assms(1) by auto
  ultimately show ?thesis
    using synth_rating_bounds [of "rng i"] synth_reviews_bounds [of "rng j"] by simp
qed

theorem synthesized_ranges_witness:
  "(\<forall>n. 0 \<le> draws_half n \<and> draws_half n < 1)
   \<and> hd (products (buildCatalog wb_ipad_mac ''AO'' draws_half))
        \<in> set (products (buildCatalog wb_ipad_mac ''AO'' draws_half))
   \<and> p_rating (hd (products (buildCatalog wb_ipad_mac ''AO'' draws_half))) = 9 / 2
   \<and> p_reviews (hd (products (buildCatalog wb_ipad_mac ''AO'' draws_half))) = 150
   \<and> 4 \<le> p_rating (hd (products (buildCatalog wb_ipad_mac ''AO'' draws_half)))
   \<and> p_rating (hd (products (buildCatalog wb_ipad_mac ''AO'' draws_half))) \<le> 5"
  using synthesized_ranges [of draws_half "hd (products (buildCatalog wb_ipad_mac ''AO'' draws_half))"
      wb_ipad_mac "''AO''"]
  by (simp add: catalog_ipad_mac draws_half_def synth_rating_def synth_reviews_def js_round_def)

text \<open>
  C3.  End to end: with the one row (iPhone 13, 128 GB, AO, \<^verbatim>\<open>450.000,00\<close>) in the
  used-price sheet and the one row (iPhone 13, 256 GB, AO, \<^verbatim>\<open>600.000,00\<close>) in the
  new-price sheet, the catalog for the market AO has exactly one product, iPhone 13, with
  the storages 128 (used) and 256 (new), and an index of exactly two variants, with the
  prices 450000 and 600000, whatever the random draws.
\<close>

theorem catalog_two_rows:
  "buildCatalog
     \<lparr>prices_usados = [[(''model'', JStr ''iPhone 13''), (''storage_gb'', JNum (Fin 128)),
                         (''market'', JStr ''AO''), (''price'', JStr ''450.000,00'')]],
      prices_novos = [[(''model'', JStr ''iPhone 13''), (''storage_gb'', JNum (Fin 256)),
                        (''market'', JStr ''AO''), (''price'', JStr ''600.000,00'')]],
      colors_sheet = [], storages_sheet = [], products_sheet = []\<rparr> ''AO'' rng =
   \<lparr>products = [\<lparr>p_id = ''iphone-13'', p_model = ''iPhone 13'', p_type = ''iphone'',
                  p_rating = synth_rating (rng 0), p_reviews = synth_reviews (rng 1),
                  p_colors = [JStr ''#0b1020'', JStr ''#d4af37'', JStr ''#e5e7eb'', JStr ''#1d4ed8''],
                  p_image = JStr ''/public/products/iphone-13.png'',
                  p_usado = [Fin 128], p_novo = [Fin 256]\<rparr>],
    variants = [(''iPhone 13|usado|128|AO'', \<lparr>v_price = JNum (Fin 450000), v_currency = ''AOA''\<rparr>),
                (''iPhone 13|novo|256|AO'', \<lparr>v_price = JNum (Fin 600000), v_currency = ''AOA''\<rparr>)]\<rparr>"
  by (simp add: str_eval num_eval field_eval catalog_eval)

lemma filter_map_filter:
  "(\<And>x. P (f x) \<Longrightarrow> Q x) \<Longrightarrow> filter P (map f (filter Q xs)) = filter P (map f xs)"
  by (induction xs) auto

lemma retained_price_nonzero: "retained r \<Longrightarrow> r_price r \<noteq> JNum (Fin 0)"
  by (auto simp: retained_def)

lemma rows_without_zero_price:
  "usedRows (without_zero_price market wb) market = usedRows wb market"
  "newRows (without_zero_price market wb) market = newRows wb market"
  by (simp_all add: usedRows_def newRows_def without_zero_price_def filter_map_filter retained_price_nonzero)

lemma ensureProduct_without_zero_price:
  "ensureProduct (without_zero_price market wb) rng = ensureProduct wb rng"
  by (simp add: fun_eq_iff ensureProduct_def without_zero_price_def)

text \<open>
  C10.  A row whose price comes out as the number 0 has a price that is not \<^verbatim>\<open>null\<close>, and
  is not retained all the same; the catalog (products, storages and variant index) is the
  one of the workbook without such rows.
\<close>

theorem zero_price_dropped:
  "(r_price (normRow market r cond) = JNum (Fin 0) \<longrightarrow>
      \<not> nullish (r_price (normRow market r cond)) \<and> \<not> retained (normRow market r cond))
   \<and> buildCatalog (without_zero_price market wb) market rng = buildCatalog wb market rng"
  by (auto simp: retained_def buildCatalog_def byModel_def rows_without_zero_price
      ensureProduct_without_zero_price)

theorem zero_price_dropped_witness:
  "r_price (normRow ''AO'' [(''model'', JStr ''iPad Mac Dock''), (''storage_gb'', JNum (Fin 64)),
                         (''price'', JStr ''0'')] ''usado'') = JNum (Fin 0)
   \<and> \<not> retained (normRow ''AO'' [(''model'', JStr ''iPad Mac Dock''), (''storage_gb'', JNum (Fin 64)),
                         (''price'', JStr ''0'')] ''usado'')
   \<and> prices_usados (without_zero_price ''AO'' wb_ipad_mac) =
        [[(''model'', JStr ''iPad Mac Dock''), (''storage_gb'', JNum (Fin 64)), (''price'', JNum (Fin 1000))]]
   \<and> buildCatalog (without_zero_price ''AO'' wb_ipad_mac) ''AO'' draws_half
        = buildCatalog wb_ipad_mac ''AO'' draws_half"
  using zero_price_dropped [of "''AO''" "[(''model'', JStr ''iPad Mac Dock''), (''storage_gb'', JNum (Fin 64)),
                         (''price'', JStr ''0'')]" "''usado''" wb_ipad_mac draws_half]
  by (simp add: without_zero_price_def wb_ipad_mac_def normRow_def str_eval num_eval field_eval)

subsection \<open>The variant index and the minimum price\<close>

lemma safeNumber_cases: "safeNumber v = JNull \<or> (\<exists>n. safeNumber v = JNum n)"
  by (cases v) (auto simp: safeNumber_def Let_def)

lemma truthy_number: "truthy (JNum n) \<Longrightarrow> n \<noteq> NaN"
  by (cases n) auto

lemma retained_normRow_price:
  assumes "retained (normRow market r cond)"
  shows "\<exists>n. r_price (normRow market r cond) = JNum n \<and> n \<noteq> NaN"
proof -
  have "\<exists>v. r_price (normRow market r cond) = safeNumber v"
    by (auto simp: normRow_def Let_def)
  then obtain v where v: "r_price (normRow market r cond) = safeNumber v" ..
  from assms have "truthy (safeNumber v)" by (simp add: retained_def v)
  with safeNumber_cases [of v] truthy_number show ?thesis unfolding v by auto
qed

lemma rows_priced:
  assumes "r \<in> set (usedRows wb market @ newRows wb market)"
  shows "\<exists>n. r_price r = JNum n \<and> n \<noteq> NaN"
  using assms retained_normRow_price by (auto simp: usedRows_def newRows_def)

lemma set_update_subset: "set (AList.update k v al) \<subseteq> insert (k, v) (set al)"
  by (induction al) auto

lemma fold_addVar_entries:
  "e \<in> set (fold addVar rows acc) \<Longrightarrow>
   e \<in> set acc \<or> (\<exists>r \<in> set rows. e = (variant_key r, \<lparr>v_price = r_price r, v_currency = r_currency r\<rparr>))"
proof (induction rows arbitrary: acc)
  case Nil
  then show ?case by simp
next
  case (Cons r rows)
  from Cons.IH [of "addVar r acc"] Cons.prems
  have "e \<in> set (addVar r acc) \<or>
        (\<exists>r \<in> set rows. e = (variant_key r, \<lparr>v_price = r_price r, v_currency = r_currency r\<rparr>))"
    by simp
  then show ?case
    using set_update_subset [of "variant_key r" "\<lparr>v_price = r_price r, v_currency = r_currency r\<rparr>" acc]
    by (auto simp: addVar_def)
qed

lemma variants_from_rows:
  assumes "e \<in> set (variants (buildCatalog wb market rng))"
  shows "\<exists>r \<in> set (usedRows wb market @ newRows wb market).
           e = (variant_key r, \<lparr>v_price = r_price r, v_currency = r_currency r\<rparr>)"
proof -
  from assms have "e \<in> set (fold addVar (usedRows wb market @ newRows wb market) [])"
    by (simp add: buildCatalog_def Let_def del: fold_append)
  from fold_addVar_entries [OF this] show ?thesis by simp
qed

lemma variants_priced:
  assumes "e \<in> set (variants (buildCatalog wb market rng))"
  shows "priced e"
proof -
  from variants_from_rows [OF assms] obtain r where
    r: "r \<in> set (usedRows wb market @ newRows wb market)"
    and e: "e = (variant_key r, \<lparr>v_price = r_price r, v_currency = r_currency r\<rparr>)" by auto
  from rows_priced [OF r] show ?thesis by (auto simp: e priced_def)
qed

lemma pricedD: "priced e \<Longrightarrow> \<exists>n. v_price (snd e) = JNum n \<and> n \<noteq> NaN"
  by (auto simp: priced_def split: jsval.splits)

text \<open>The order \<^verbatim>\<open><\<close> on the numbers other than \<^verbatim>\<open>NaN\<close>.\<close>

lemma num_less_trans: "num_less a b \<Longrightarrow> num_less b c \<Longrightarrow> num_less a c"
  by (cases a; cases b; cases c) auto

lemma num_less_irrefl: "\<not> num_less a a"
  by (cases a) auto

lemma num_less_le_trans:
  "num_less a b \<Longrightarrow> \<not> num_less c b \<Longrightarrow> c \<noteq> NaN \<Longrightarrow> num_less a c"
  by (cases a; cases b; cases c) auto

lemma num_less_asym: "num_less a b \<Longrightarrow> \<not> num_less b a"
  by (cases a; cases b) auto

lemma min_step_other:
  "\<not> key_matches model market e \<Longrightarrow> min_step model market e st = st"
  by (cases st) (auto simp: min_step_def key_matches_def split: option.splits)

lemma min_step_match_null:
  "key_matches model market e \<Longrightarrow> v_price (snd e) = JNum x \<Longrightarrow>
   min_step model market e (JNull, cur) = (JNum x, v_currency (snd e))"
  by (auto simp: min_step_def key_matches_def split: option.splits)

lemma min_step_match_num:
  "key_matches model market e \<Longrightarrow> v_price (snd e) = JNum x \<Longrightarrow>
   min_step model market e (JNum a, cur) =
     (if num_less x a then (JNum x, v_currency (snd e)) else (JNum a, cur))"
  by (auto simp: min_step_def key_matches_def split: option.splits)

lemma fold_min_step_num:
  assumes "\<forall>e \<in> set vs. priced e" and "a \<noteq> NaN"
  shows "\<exists>b cur'. fold (min_step model market) vs (JNum a, cur) = (JNum b, cur')
     \<and> b \<noteq> NaN \<and> \<not> num_less a b
     \<and> (\<forall>e \<in> set (filter (key_matches model market) vs). \<forall>x. v_price (snd e) = JNum x \<longrightarrow> \<not> num_less x b)
     \<and> ((b, cur') = (a, cur) \<or>
         (\<exists>e \<in> set (filter (key_matches model market) vs).
            v_price (snd e) = JNum b \<and> v_currency (snd e) = cur'))"
  using assms
proof (induction vs arbitrary: a cur)
  case Nil
  then show ?case by (simp add: num_less_irrefl)
next
  case (Cons e vs)
  from Cons.prems(1) pricedD [of e] obtain x where x: "v_price (snd e) = JNum x" "x \<noteq> NaN"
    by auto
  have rest: "\<forall>e \<in> set vs. priced e" using Cons.prems(1) by simp
  show ?case
  proof (cases "key_matches model market e")
    case False
    with Cons.IH [OF rest Cons.prems(2), of cur] show ?thesis by (simp add: min_step_other)
  next
    case True
    show ?thesis
    proof (cases "num_less x a")
      case lt: True
      from Cons.IH [OF rest x(2), of "v_currency (snd e)"] obtain b cur' where
        f: "fold (min_step model market) vs (JNum x, v_currency (snd e)) = (JNum b, cur')"
        and nb: "b \<noteq> NaN"
        and le: "\<not> num_less x b"
        and lb: "\<forall>e \<in> set (filter (key_matches model market) vs). \<forall>x. v_price (snd e) = JNum x \<longrightarrow> \<not> num_less x b"
        and org: "(b, cur') = (x, v_currency (snd e)) \<or>
           (\<exists>e \<in> set (filter (key_matches model market) vs).
              v_price (snd e) = JNum b \<and> v_currency (snd e) = cur')"
        by blast
      have "fold (min_step model market) (e # vs) (JNum a, cur) = (JNum b, cur')"
        using True x lt f by (simp add: min_step_match_num)
      moreover have "\<not> num_less a b"
      proof
        assume "num_less a b"
        with lt have "num_less x b" by (rule num_less_trans)
        with le show False by simp
      qed
      moreover have "\<forall>e' \<in> set (filter (key_matches model market) (e # vs)).
          \<forall>y. v_price (snd e') = JNum y \<longrightarrow> \<not> num_less y b"
        using lb le x True by auto
      moreover have "\<exists>e' \<in> set (filter (key_matches model market) (e # vs)).
            v_price (snd e') = JNum b \<and> v_currency (snd e') = cur'"
        using org x True by auto
      ultimately show ?thesis using nb by blast
    next
      case ge: False
      from Cons.IH [OF rest Cons.prems(2), of cur] obtain b cur' where
        f: "fold (min_step model market) vs (JNum a, cur) = (JNum b, cur')"
        and nb: "b \<noteq> NaN"
        and le: "\<not> num_less a b"
        and lb: "\<forall>e \<in> set (filter (key_matches model market) vs). \<forall>x. v_price (snd e) = JNum x \<longrightarrow> \<not> num_less x b"
        and org: "(b, cur') = (a, cur) \<or>
           (\<exists>e \<in> set (filter (key_matches model market) vs).
              v_price (snd e) = JNum b \<and> v_currency (snd e) = cur')"
        by blast
      have "fold (min_step model market) (e # vs) (JNum a, cur) = (JNum b, cur')"
        using True x ge f by (simp add: min_step_match_num)
      moreover have "\<not> num_less x b"
      proof
        assume "num_less x b"
        from num_less_le_trans [OF this le Cons.prems(2)] ge show False by simp
      qed
      then have "\<forall>e' \<in> set (filter (key_matches model market) (e # vs)).
          \<forall>y. v_price (snd e') = JNum y \<longrightarrow> \<not> num_less y b"
        using lb x True by auto
      moreover have "(b, cur') = (a, cur) \<or> (\<exists>e' \<in> set (filter (key_matches model market) (e # vs)).
            v_price (snd e') = JNum b \<and> v_currency (snd e') = cur')"
        using org by auto
      ultimately show ?thesis using le nb by blast
    qed
  qed
qed

lemma fold_min_step_null:
  assumes "\<forall>e \<in> set vs. priced e"
  shows "(filter (key_matches model market) vs = []
            \<and> fold (min_step model market) vs (JNull, cur) = (JNull, cur))
     \<or> (\<exists>b cur'. fold (min_step model market) vs (JNull, cur) = (JNum b, cur')
          \<and> b \<noteq> NaN
          \<and> (\<forall>e \<in> set (filter (key_matches model market) vs). \<forall>x. v_price (snd e) = JNum x \<longrightarrow> \<not> num_less x b)
          \<and> (\<exists>e \<in> set (filter (key_matches model market) vs).
                v_price (snd e) = JNum b \<and> v_currency (snd e) = cur'))"
  using assms
proof (induction vs)
  case Nil
  then show ?case by simp
next
  case (Cons e vs)
  from Cons.prems pricedD [of e] obtain x where x: "v_price (snd e) = JNum x" "x \<noteq> NaN"
    by auto
  have rest: "\<forall>e \<in> set vs. priced e" using Cons.prems by simp
  show ?case
  proof (cases "key_matches model market e")
    case False
    with Cons.IH [OF rest] show ?thesis by (simp add: min_step_other)
  next
    case True
    from fold_min_step_num [OF rest x(2), of model market "v_currency (snd e)"] obtain b cur' where
      f: "fold (min_step model market) vs (JNum x, v_currency (snd e)) = (JNum b, cur')"
      and nb: "b \<noteq> NaN"
      and le: "\<not> num_less x b"
      and lb: "\<forall>e \<in> set (filter (key_matches model market) vs). \<forall>x. v_price (snd e) = JNum x \<longrightarrow> \<not> num_less x b"
      and org: "(b, cur') = (x, v_currency (snd e)) \<or>
         (\<exists>e \<in> set (filter (key_matches model market) vs).
            v_price (snd e) = JNum b \<and> v_currency (snd e) = cur')"
      by blast
    have "fold (min_step model market) (e # vs) (JNull, cur) = (JNum b, cur')"
      using True x f by (simp add: min_step_match_null)
    moreover have "\<forall>e' \<in> set (filter (key_matches model market) (e # vs)).
        \<forall>y. v_price (snd e') = JNum y \<longrightarrow> \<not> num_less y b"
      using lb le x True by auto
    moreover have "\<exists>e' \<in> set (filter (key_matches model market) (e # vs)).
          v_price (snd e') = JNum b \<and> v_currency (snd e') = cur'"
      using org x True by auto
    ultimately show ?thesis using nb by blast
  qed
qed

subsection \<open>The featured items and their order\<close>

lemma map_throwing_Inr:
  "map_throwing f xs = Inr ys \<Longrightarrow> list_all2 (\<lambda>x y. f x = Inr y) xs ys"
  by (induction xs arbitrary: ys) (auto split: sum.splits)

lemma list_all2_right: "list_all2 P xs ys \<Longrightarrow> y \<in> set ys \<Longrightarrow> \<exists>x \<in> set xs. P x y"
  by (induction rule: list_all2_induct) auto

lemma to_item_Inr:
  assumes "to_item vs market baseUrl p = Inr it"
  shows "it_model it = p_model p \<and> it_id it = p_id p
       \<and> it_min_price it = fst (minPriceForModel vs market (p_model p))
       \<and> it_currency it = snd (minPriceForModel vs market (p_model p))"
  using assms by (auto simp: to_item_def split: sum.splits)

lemma list_all2_to_item_models:
  "list_all2 (\<lambda>p it. to_item vs market baseUrl p = Inr it) ps its \<Longrightarrow>
   map it_model its = map p_model ps"
  by (induction ps its rule: list_all2_induct) (auto dest: to_item_Inr)

lemma featured_items_sound:
  assumes "featured_items wb market city baseUrl rng = Inr items"
  shows "distinct (map it_model items)"
    and "it \<in> set items \<Longrightarrow>
         \<not> nullish (it_min_price it)
         \<and> it_min_price it = fst (minPriceForModel (variants (buildCatalog wb market rng)) market (it_model it))
         \<and> it_currency it = snd (minPriceForModel (variants (buildCatalog wb market rng)) market (it_model it))
         \<and> it_model it \<in> set (modelsAvailable wb city)
         \<and> it_model it \<in> p_model ` set (products (buildCatalog wb market rng))"
proof -
  let ?vs = "variants (buildCatalog wb market rng)"
  let ?ps = "filter (\<lambda>p. p_model p \<in> set (modelsAvailable wb city)) (products (buildCatalog wb market rng))"
  from assms obtain its where
    its: "map_throwing (to_item ?vs market baseUrl) ?ps = Inr its"
    and items: "items = filter (\<lambda>it. \<not> nullish (it_min_price it)) its"
    by (auto simp: featured_items_def Let_def split: sum.splits)
  have all2: "list_all2 (\<lambda>p it. to_item ?vs market baseUrl p = Inr it) ?ps its"
    using map_throwing_Inr [OF its] .
  have models: "map it_model its = map p_model ?ps"
    using list_all2_to_item_models [OF all2] .
  have "distinct (map p_model ?ps)"
    using products_distinct [of wb market rng] by (rule distinct_map_filter)
  then have "distinct (map it_model its)" using models by simp
  then show "distinct (map it_model items)" unfolding items by (rule distinct_map_filter)
  assume "it \<in> set items"
  then have it: "it \<in> set its" and nn: "\<not> nullish (it_min_price it)" by (auto simp: items)
  from it all2 obtain p where p: "p \<in> set ?ps" "to_item ?vs market baseUrl p = Inr it"
    by (blast dest: list_all2_right)
  from to_item_Inr [OF p(2)] p(1) nn
  show "\<not> nullish (it_min_price it)
         \<and> it_min_price it = fst (minPriceForModel ?vs market (it_model it))
         \<and> it_currency it = snd (minPriceForModel ?vs market (it_model it))
         \<and> it_model it \<in> set (modelsAvailable wb city)
         \<and> it_model it \<in> p_model ` set (products (buildCatalog wb market rng))"
    by auto
qed

lemma fold_set_add_distinct:
  "distinct xs \<Longrightarrow> fold set_add xs acc = acc @ filter (\<lambda>x. x \<notin> set acc) xs"
proof (induction xs arbitrary: acc)
  case Nil
  then show ?case by simp
next
  case (Cons x xs)
  show ?case
  proof (cases "x \<in> set acc")
    case True
    with Cons show ?thesis by (simp add: set_add_def)
  next
    case False
    have "filter (\<lambda>y. y \<notin> set (acc @ [x])) xs = filter (\<lambda>y. y \<notin> set acc) xs"
      using Cons.prems by (intro filter_cong) auto
    with False Cons show ?thesis by (simp add: set_add_def)
  qed
qed

lemma find_unique:
  "distinct (map f xs) \<Longrightarrow>
   (case find (\<lambda>x. f x = s) xs of None \<Rightarrow> [] | Some x \<Rightarrow> [x]) = filter (\<lambda>x. f x = s) xs"
proof (induction xs)
  case Nil
  then show ?case by simp
next
  case (Cons x xs)
  show ?case
  proof (cases "f x = s")
    case True
    have "f x \<notin> f ` set xs" using Cons.prems by simp
    then have "\<forall>y \<in> set xs. f y \<noteq> s" using True by blast
    then have "filter (\<lambda>y. f y = s) xs = []"
      by (simp add: filter_empty_conv)
    with True show ?thesis by simp
  next
    case False
    with Cons show ?thesis by simp
  qed
qed

lemma rev_short: "length xs \<le> 1 \<Longrightarrow> rev xs = xs"
  by (cases xs) auto

lemma filter_unique_short: "distinct (map f xs) \<Longrightarrow> length (filter (\<lambda>x. f x = s) xs) \<le> 1"
  using find_unique [of f xs s] by (auto split: option.splits dest: arg_cong [where f = length])

lemma mapByModel_get_filter:
  assumes "distinct (map it_model items)"
  shows "(case mapByModel_get items m of None \<Rightarrow> [] | Some it \<Rightarrow> [it])
       = filter (\<lambda>it. JStr (it_model it) = m) items"
proof (cases m)
  case (JStr s)
  have "distinct (map it_model (rev items))" using assms by (simp add: rev_map [symmetric])
  from find_unique [OF this, of s]
  have "(case find (\<lambda>it. it_model it = s) (rev items) of None \<Rightarrow> [] | Some it \<Rightarrow> [it])
          = rev (filter (\<lambda>it. it_model it = s) items)"
    by (simp add: rev_filter)
  also have "\<dots> = filter (\<lambda>it. it_model it = s) items"
    using filter_unique_short [OF assms, of s] by (rule rev_short)
  finally show ?thesis by (simp add: mapByModel_get_def JStr)
qed (simp_all add: mapByModel_get_def)

lemma ordered_items_preferred_first:
  assumes "distinct (map it_model items)"
  shows "ordered_items preferred items = preferred_first preferred items"
proof -
  let ?pref = "concat (map (\<lambda>m. filter (\<lambda>it. JStr (it_model it) = m) items) preferred)"
  have d: "distinct items" using assms by (simp add: distinct_map)
  have pref: "concat (map (\<lambda>m. case mapByModel_get items m of None \<Rightarrow> [] | Some it \<Rightarrow> [it]) preferred) = ?pref"
    by (simp add: mapByModel_get_filter [OF assms])
  have "filter (\<lambda>x. x \<notin> set ?pref) items = filter (\<lambda>it. JStr (it_model it) \<notin> set preferred) items"
    by (rule filter_cong) auto
  then show ?thesis
    by (simp add: ordered_items_def preferred_first_def pref fold_set_add_distinct [OF d])
qed

lemma preferred_first_distinct:
  assumes "distinct (map it_model items)" and "distinct preferred"
  shows "distinct (map it_model (preferred_first preferred items))"
proof -
  have pref: "distinct (map it_model (concat (map (\<lambda>m. filter (\<lambda>it. JStr (it_model it) = m) items) ms)))
      \<and> it_model ` set (concat (map (\<lambda>m. filter (\<lambda>it. JStr (it_model it) = m) items) ms))
          \<subseteq> {s. JStr s \<in> set ms}"
    if "distinct ms" for ms
    using that
  proof (induction ms)
    case Nil
    then show ?case by simp
  next
    case (Cons m ms)
    have "distinct (map it_model (filter (\<lambda>it. JStr (it_model it) = m) items))"
      using assms(1) by (rule distinct_map_filter)
    moreover have "it_model ` set (filter (\<lambda>it. JStr (it_model it) = m) items) \<subseteq> {s. JStr s = m}"
      by auto
    ultimately show ?case using Cons by auto
  qed
  have rest: "distinct (map it_model (filter (\<lambda>it. JStr (it_model it) \<notin> set preferred) items))"
    using assms(1) by (rule distinct_map_filter)
  from pref [OF assms(2)] rest show ?thesis
    by (auto simp: preferred_first_def)
qed

lemma preferred_first_subset: "set (preferred_first preferred items) \<subseteq> set items"
  by (auto simp: preferred_first_def)

lemma clamp_count_cases:
  "clamp_count c =
     (case js_Number c of
        NaN \<Rightarrow> Fin 8
      | Fin x \<Rightarrow> if x = 0 then Fin 8 else Fin (max 1 (min 20 x))
      | PosInf \<Rightarrow> Fin 20
      | NegInf \<Rightarrow> Fin 1)"
  by (cases "js_Number c") (auto simp: clamp_count_def js_or_def)

lemma clamp_count_range: "\<exists>x. clamp_count c = Fin x \<and> 1 \<le> x \<and> x \<le> 20"
  unfolding clamp_count_cases by (cases "js_Number c") auto

lemma clamp_count_examples:
  "clamp_count JUndef = Fin 8"
  "clamp_count (JStr ''abc'') = Fin 8"
  "clamp_count (JStr ''0'') = Fin 8"
  "clamp_count (JStr ''5'') = Fin 5"
  "clamp_count (JStr ''-3'') = Fin 1"
  "clamp_count (JStr ''99'') = Fin 20"
  "clamp_count (JStr ''Infinity'') = Fin 20"
  "clamp_count (JStr ''-Infinity'') = Fin 1"
  by (simp_all add: clamp_count_def js_or_def str_eval num_eval)

lemma length_take_floor: "0 \<le> x \<Longrightarrow> of_nat (length (take (nat \<lfloor>x\<rfloor>) xs)) \<le> (x::rat)"
proof -
  assume x: "0 \<le> x"
  have "(of_nat (length (take (nat \<lfloor>x\<rfloor>) xs)) :: rat) \<le> of_nat (nat \<lfloor>x\<rfloor>)"
    by simp
  also have "\<dots> = of_int \<lfloor>x\<rfloor>" using x by simp
  also have "\<dots> \<le> x" by simp
  finally show ?thesis .
qed

subsection \<open>The featured selection on an example\<close>

lemma catalog_demo:
  "buildCatalog wb_demo ''AO'' rng =
   \<lparr>products =
      [\<lparr>p_id = ''iphone-13'', p_model = ''iPhone 13'', p_type = ''iphone'',
         p_rating = synth_rating (rng 0), p_reviews = synth_reviews (rng 1),
         p_colors = default_palette, p_image = JStr ''/public/products/iphone-13.png'',
         p_usado = [Fin 128], p_novo = [Fin 128]\<rparr>,
       \<lparr>p_id = ''ipad-9'', p_model = ''iPad 9'', p_type = ''ipad'',
         p_rating = synth_rating (rng 2), p_reviews = synth_reviews (rng 3),
         p_colors = default_palette, p_image = JStr ''/public/products/ipad-9.png'',
         p_usado = [Fin 64], p_novo = []\<rparr>,
       \<lparr>p_id = ''macbook-air'', p_model = ''MacBook Air'', p_type = ''macbook'',
         p_rating = synth_rating (rng 4), p_reviews = synth_reviews (rng 5),
         p_colors = default_palette, p_image = JStr ''/public/products/macbook-air.png'',
         p_usado = [], p_novo = [Fin 512]\<rparr>,
       \<lparr>p_id = ''apple-watch'', p_model = ''Apple Watch'', p_type = ''acessorio'',
         p_rating = synth_rating (rng 6), p_reviews = synth_reviews (rng 7),
         p_colors = default_palette, p_image = JStr ''/public/products/apple-watch.png'',
         p_usado = [], p_novo = [Fin 32]\<rparr>],
    variants =
      [(''iPhone 13|usado|128|AO'', \<lparr>v_price = JNum (Fin 450000), v_currency = ''AOA''\<rparr>),
       (''iPad 9|usado|64|AO'', \<lparr>v_price = JNum (Fin 300000), v_currency = ''AOA''\<rparr>),
       (''iPhone 13|novo|128|AO'', \<lparr>v_price = JNum (Fin 600000), v_currency = ''AOA''\<rparr>),
       (''MacBook Air|novo|512|AO'', \<lparr>v_price = JNum (Fin 900000), v_currency = ''AOA''\<rparr>),
       (''Apple Watch|novo|32|AO'', \<lparr>v_price = JNum (Fin 90000), v_currency = ''AOA''\<rparr>)]\<rparr>"
  by (simp add: wb_demo_def str_eval num_eval field_eval catalog_eval)
     (simp add: eval_nat_numeral)

lemma available_demo:
  "modelsAvailable wb_demo ''luanda'' = [''iPhone 13'', ''iPad 9'', ''MacBook Air'']"
  by (simp add: wb_demo_def modelsAvailable_def avail_step_def set_add_def str_eval field_eval)

lemma featured_items_demo:
  "featured_items wb_demo ''AO'' ''luanda'' ''http://h'' rng = Inr items_demo"
  by (simp add: featured_items_def catalog_demo available_demo items_demo_def
      to_item_def absolute_image_def minPriceForModel_def min_step_def key_parts_def startsWith_def)

lemma query_demo:
  "toUpperCase (js_String (js_or (q_market (q_demo n)) (JStr ''AO''))) = ''AO''"
  "toLowerCase (js_String (js_or (q_city (q_demo n)) (JStr ''Luanda''))) = ''luanda''"
  by (simp_all add: q_demo_def js_or_def str_eval)

lemma featured_demo_two:
  "featured (q_demo (JStr ''2'')) (Some wb_demo) [JStr ''MacBook Air'', JNull, JStr ''iPhone 13'']
      ''http://h'' rng =
   Inr \<lparr>res_market = ''AO'', res_count = Fin 2, res_items = [items_demo ! 2, items_demo ! 0]\<rparr>"
  by (simp add: featured_def query_demo featured_items_demo)
     (simp add: q_demo_def items_demo_def ordered_items_def mapByModel_get_def clamp_count_def
        set_add_def js_or_def str_eval num_eval)

subsection \<open>The featured response\<close>

lemma featured_Inr:
  assumes "featured q (Some wb) models baseUrl rng = Inr res"
  shows "\<exists>items.
           featured_items wb (res_market res)
             (toLowerCase (js_String (js_or (q_city q) (JStr ''Luanda'')))) baseUrl rng = Inr items
         \<and> res_market res = toUpperCase (js_String (js_or (q_market q) (JStr ''AO'')))
         \<and> res_count res = clamp_count (q_count q)
         \<and> res_items res = slice0 (ordered_items (filter truthy models) items) (clamp_count (q_count q))"
  using assms by (auto simp: featured_def Let_def split: sum.splits)

lemma slice0_subset: "set (slice0 xs n) \<subseteq> set xs"
  by (cases n) (auto dest: in_set_takeD)

lemma featured_items_subset:
  assumes "featured q (Some wb) models baseUrl rng = Inr res"
    and "featured_items wb (res_market res)
           (toLowerCase (js_String (js_or (q_city q) (JStr ''Luanda'')))) baseUrl rng = Inr items"
  shows "set (res_items res) \<subseteq> set items"
proof -
  from featured_Inr [OF assms(1)] assms(2)
  have res: "res_items res = slice0 (ordered_items (filter truthy models) items) (clamp_count (q_count q))"
    by auto
  have "set (ordered_items (filter truthy models) items) \<subseteq> set items"
    unfolding ordered_items_preferred_first [OF featured_items_sound(1) [OF assms(2)]]
    by (rule preferred_first_subset)
  with slice0_subset [of "ordered_items (filter truthy models) items" "clamp_count (q_count q)"]
  show ?thesis unfolding res by blast
qed

text \<open>What \<^verbatim>\<open>minPriceForModel\<close> computes, in the terms of its own test on the keys: the
  least price among the entries the test accepts.\<close>

lemma minPriceForModel_min:
  assumes "\<forall>e \<in> set vs. priced e"
    and "\<not> nullish (fst (minPriceForModel vs market model))"
  shows "\<exists>n. fst (minPriceForModel vs market model) = JNum n \<and> n \<noteq> NaN
     \<and> (\<forall>e \<in> set (filter (key_matches model market) vs).
           \<exists>m. v_price (snd e) = JNum m \<and> \<not> num_less m n)
     \<and> (\<exists>e \<in> set (filter (key_matches model market) vs).
            v_price (snd e) = JNum n \<and> v_currency (snd e) = snd (minPriceForModel vs market model))"
proof -
  from fold_min_step_null [OF assms(1), of model market "''AOA''"] assms(2)
  obtain b cur' where
    f: "minPriceForModel vs market model = (JNum b, cur')"
    and nb: "b \<noteq> NaN"
    and lb: "\<forall>e \<in> set (filter (key_matches model market) vs). \<forall>x. v_price (snd e) = JNum x \<longrightarrow> \<not> num_less x b"
    and org: "\<exists>e \<in> set (filter (key_matches model market) vs).
                v_price (snd e) = JNum b \<and> v_currency (snd e) = cur'"
    unfolding minPriceForModel_def by auto
  have "\<exists>y. v_price (snd e) = JNum y \<and> \<not> num_less y b"
    if "e \<in> set (filter (key_matches model market) vs)" for e
  proof -
    from that assms(1) have "priced e" by simp
    from pricedD [OF this] obtain y where "v_price (snd e) = JNum y" by blast
    with lb that show ?thesis by blast
  qed
  with f nb org show ?thesis by auto
qed

lemma minPriceForModel_none:
  assumes "\<forall>e \<in> set vs. priced e"
    and "filter (key_matches model market) vs = []"
  shows "fst (minPriceForModel vs market model) = JNull"
  using fold_min_step_null [OF assms(1), of model market "''AOA''"] assms(2)
  unfolding minPriceForModel_def by auto

lemma featured_item_price:
  assumes "featured q (Some wb) models baseUrl rng = Inr res"
    and "it \<in> set (res_items res)"
  shows "\<not> nullish (it_min_price it)"
    and "it_min_price it
           = fst (minPriceForModel (variants (buildCatalog wb (res_market res) rng))
                    (res_market res) (it_model it))"
    and "it_currency it
           = snd (minPriceForModel (variants (buildCatalog wb (res_market res) rng))
                    (res_market res) (it_model it))"
proof -
  from featured_Inr [OF assms(1)] obtain items where
    items: "featured_items wb (res_market res)
              (toLowerCase (js_String (js_or (q_city q) (JStr ''Luanda'')))) baseUrl rng = Inr items"
    by blast
  from featured_items_subset [OF assms(1) items] assms(2) have "it \<in> set items" by blast
  from featured_items_sound(2) [OF items this]
  show "\<not> nullish (it_min_price it)"
    and "it_min_price it
           = fst (minPriceForModel (variants (buildCatalog wb (res_market res) rng))
                    (res_market res) (it_model it))"
    and "it_currency it
           = snd (minPriceForModel (variants (buildCatalog wb (res_market res) rng))
                    (res_market res) (it_model it))"
    by blast+
qed

text \<open>
  C7, amended.  The count of a featured response is \<^verbatim>\<open>Number(count)\<close> limited to the
  range 1 to 20 (so 20 for \<^verbatim>\<open>Infinity\<close>), and 8 where \<^verbatim>\<open>Number(count)\<close> is \<^verbatim>\<open>NaN\<close> (the
  parameter is absent or not a number) or 0.  The list has at most that many items, all of
  them items retained by the pipeline.  When no model is listed twice in the preferred
  models, the list is the first \<open>count\<close> entries of: the items of the preferred models, in
  the order of preference, then the other items in their original order; and no model
  occurs twice in it.
\<close>

theorem featured_count_and_order:
  assumes "featured q (Some wb) models baseUrl rng = Inr res"
  shows "\<exists>items c.
           featured_items wb (res_market res)
             (toLowerCase (js_String (js_or (q_city q) (JStr ''Luanda'')))) baseUrl rng = Inr items
         \<and> res_count res = Fin c \<and> 1 \<le> c \<and> c \<le> 20
         \<and> Fin c = (case js_Number (q_count q) of
                       NaN \<Rightarrow> Fin 8
                     | Fin x \<Rightarrow> if x = 0 then Fin 8 else Fin (max 1 (min 20 x))
                     | PosInf \<Rightarrow> Fin 20
                     | NegInf \<Rightarrow> Fin 1)
         \<and> of_nat (length (res_items res)) \<le> c
         \<and> set (res_items res) \<subseteq> set items
         \<and> (distinct (filter truthy models) \<longrightarrow>
              res_items res = take (nat \<lfloor>c\<rfloor>) (preferred_first (filter truthy models) items)
              \<and> distinct (map it_model (res_items res)))"
proof -
  from featured_Inr [OF assms(1)] obtain items where
    items: "featured_items wb (res_market res)
              (toLowerCase (js_String (js_or (q_city q) (JStr ''Luanda'')))) baseUrl rng = Inr items"
    and cnt: "res_count res = clamp_count (q_count q)"
    and res: "res_items res = slice0 (ordered_items (filter truthy models) items) (clamp_count (q_count q))"
    by blast
  from clamp_count_range [of "q_count q"] obtain c where
    c: "clamp_count (q_count q) = Fin c" "1 \<le> c" "c \<le> 20" by blast
  have d: "distinct (map it_model items)" using featured_items_sound(1) [OF items] .
  have ord: "ordered_items (filter truthy models) items = preferred_first (filter truthy models) items"
    using ordered_items_preferred_first [OF d] .
  have r: "res_items res = take (nat \<lfloor>c\<rfloor>) (preferred_first (filter truthy models) items)"
    using c by (simp add: res ord)
  have len: "of_nat (length (res_items res)) \<le> c"
    unfolding r using c(2) by (intro length_take_floor) simp
  have sub: "set (res_items res) \<subseteq> set items"
    using featured_items_subset [OF assms(1) items] .
  have dist: "distinct (map it_model (res_items res))" if "distinct (filter truthy models)"
    unfolding r using preferred_first_distinct [OF d that]
    by (simp add: take_map [symmetric] distinct_take)
  have rule: "Fin c = (case js_Number (q_count q) of
                   NaN \<Rightarrow> Fin 8
                 | Fin x \<Rightarrow> if x = 0 then Fin 8 else Fin (max 1 (min 20 x))
                 | PosInf \<Rightarrow> Fin 20
                 | NegInf \<Rightarrow> Fin 1)"
    using c(1) by (simp add: clamp_count_cases)
  have cnt': "res_count res = Fin c" using cnt c(1) by simp
  from items cnt' c(2,3) rule len sub r dist show ?thesis by blast
qed

theorem featured_count_and_order_witness:
  "featured (q_demo (JStr ''2'')) (Some wb_demo) [JStr ''MacBook Air'', JNull, JStr ''iPhone 13'']
      ''http://h'' draws_half =
     Inr \<lparr>res_market = ''AO'', res_count = Fin 2, res_items = [items_demo ! 2, items_demo ! 0]\<rparr>
   \<and> distinct (filter truthy [JStr ''MacBook Air'', JNull, JStr ''iPhone 13''])
   \<and> featured_items wb_demo ''AO'' ''luanda'' ''http://h'' draws_half = Inr items_demo
   \<and> map it_model items_demo = [''iPhone 13'', ''iPad 9'', ''MacBook Air'']
   \<and> js_Number (q_count (q_demo (JStr ''2''))) = Fin 2
   \<and> take 2 (preferred_first (filter truthy [JStr ''MacBook Air'', JNull, JStr ''iPhone 13'']) items_demo)
        = [items_demo ! 2, items_demo ! 0]"
  using featured_count_and_order [of "q_demo (JStr ''2'')" wb_demo
      "[JStr ''MacBook Air'', JNull, JStr ''iPhone 13'']" "''http://h''" draws_half
      "\<lparr>res_market = ''AO'', res_count = Fin 2, res_items = [items_demo ! 2, items_demo ! 0]\<rparr>"]
  by (simp add: featured_demo_two featured_items_demo query_demo)
     (simp add: items_demo_def preferred_first_def q_demo_def str_eval num_eval)

text \<open>
  C7, as stated, fails: for \<^verbatim>\<open>count=0\<close> the count is 8, not 0 clamped to 1, and the
  response has three items.
\<close>

theorem featured_count_zero_counterexample:
  "featured (q_demo (JStr ''0'')) (Some wb_demo) [] ''http://h'' draws_half =
     Inr \<lparr>res_market = ''AO'', res_count = Fin 8, res_items = items_demo\<rparr>
   \<and> js_Number (q_count (q_demo (JStr ''0''))) = Fin 0
   \<and> length items_demo = 3
   \<and> \<not> rat_of_nat (length items_demo) \<le> max 1 (min 20 0)"
  by (simp add: featured_def query_demo featured_items_demo)
     (simp add: q_demo_def items_demo_def ordered_items_def clamp_count_def
        set_add_def js_or_def str_eval num_eval)

subsection \<open>Keys, numbers in keys, storage sets and sorting\<close>

lemma split_on_none: "d \<notin> set a \<Longrightarrow> split_on d a = [a]"
  by (induction a) auto

lemma split_on_append: "d \<notin> set a \<Longrightarrow> split_on d (a @ d # rest) = a # split_on d rest"
  by (induction a) auto

lemma digit_table:
  "list_all (\<lambda>k. is_digit (digit_char k) \<and> digit_val (digit_char k) = k) [0, 1, 2, 3, 4, 5, 6, 7, 8, 9]"
  by code_simp

lemma digit_chars:
  "list_all (\<lambda>c. lower_char c = c \<and> \<not> is_space c \<and> c \<noteq> CHR ''|'' \<and> c \<noteq> CHR ''-'' \<and> c \<noteq> CHR ''+''
     \<and> map_of [(CHR ''x'', 16::nat), (CHR ''o'', 8), (CHR ''b'', 2)] c = None) ''0123456789''"
  by code_simp

lemma digit_char_mod: "digit_char d = digit_char (d mod 10)"
  by (simp add: digit_char_def)

lemma digit_index: "(d::nat) mod 10 \<in> set [0, 1, 2, 3, 4, 5, 6, 7, 8, 9]"
proof -
  have "d mod 10 < 10" by simp
  then have "d mod 10 \<in> {0 ..< 10}" by simp
  also have "{0 ..< 10::nat} = set [0 ..< 10]" by simp
  also have "[0 ..< 10::nat] = [0, 1, 2, 3, 4, 5, 6, 7, 8, 9]" by code_simp
  finally show ?thesis .
qed

lemma digit_char_digit: "is_digit (digit_char d)"
  using digit_table digit_index [of d] digit_char_mod [of d]
  unfolding list_all_iff by metis

lemma digit_val_digit_char: "digit_val (digit_char d) = d mod 10"
  using digit_table digit_index [of d] digit_char_mod [of d]
  unfolding list_all_iff by metis

lemma digit_props:
  assumes "is_digit c"
  shows "lower_char c = c" "\<not> is_space c" "c \<noteq> CHR ''|''" "c \<noteq> CHR ''-''" "c \<noteq> CHR ''+''"
    "map_of [(CHR ''x'', 16::nat), (CHR ''o'', 8), (CHR ''b'', 2)] c = None"
  using assms digit_chars unfolding list_all_iff is_digit_def by blast+

lemma nat_digits_digits: "list_all is_digit (nat_digits n)"
proof (induction n rule: nat_digits.induct)
  case (1 n)
  show ?case
    by (subst nat_digits.simps) (use 1 in \<open>auto simp: digit_char_digit\<close>)
qed

lemma nat_digits_nonempty: "nat_digits n \<noteq> []"
  by (subst nat_digits.simps) simp

lemma digits_val_snoc: "digits_val b (ds @ [c]) = b * digits_val b ds + digit_val c"
  by (simp add: digits_val_def)

lemma digits_val_nat_digits: "digits_val 10 (nat_digits n) = n"
proof (induction n rule: nat_digits.induct)
  case (1 n)
  show ?case
  proof (cases "n < 10")
    case True
    then show ?thesis
      by (subst nat_digits.simps) (simp add: digits_val_def digit_val_digit_char)
  next
    case False
    with 1 show ?thesis
      by (subst nat_digits.simps) (simp add: digits_val_snoc digit_val_digit_char)
  qed
qed

lemma trim_id:
  assumes "s \<noteq> []" "\<not> is_space (hd s)" "\<not> is_space (last s)"
  shows "trim s = s"
proof -
  have "dropWhile is_space s = s" using assms(2) by (simp add: dropWhile_eq_self_iff)
  moreover have "dropWhile is_space (rev s) = rev s"
    using assms(1,3) by (simp add: dropWhile_eq_self_iff hd_rev)
  ultimately show ?thesis by (simp add: trim_def)
qed

lemma parse_radix_digits:
  assumes "list_all is_digit ds"
  shows "parse_radix (c # ds) = None"
proof (cases ds)
  case Nil
  then show ?thesis by (simp add: parse_radix_def)
next
  case (Cons x xs)
  with assms have "is_digit x" by simp
  from digit_props(1,6) [OF this]
  have "map_of [(CHR ''x'', 16::nat), (CHR ''o'', 8), (CHR ''b'', 2)] (lower_char x) = None"
    by (simp only:)
  then show ?thesis
    unfolding parse_radix_def Cons by (simp only: list.case option.case)
qed

lemma parse_unsigned_digits:
  assumes "list_all is_digit ds" "ds \<noteq> []"
  shows "parse_unsigned ds = Some (of_nat (digits_val 10 ds))"
proof -
  have t: "takeWhile is_digit ds = ds" using assms(1) by (simp add: takeWhile_eq_all_conv list_all_iff)
  have d: "dropWhile is_digit ds = []" using assms(1) by (simp add: list_all_iff)
  have s: "\<not> startsWith [] ''.''" by (simp add: startsWith_def)
  have e: "parse_exponent [] = Some 0" by (simp add: parse_exponent_def)
  show ?thesis
    using assms(2) by (simp add: parse_unsigned_def t d s e digits_val_def)
qed

lemma str_to_num_digits:
  assumes "list_all is_digit ds" "ds \<noteq> []"
  shows "str_to_num ds = Fin (of_nat (digits_val 10 ds))"
    and "str_to_num (CHR ''-'' # ds) = Fin (- of_nat (digits_val 10 ds))"
proof -
  obtain c cs where ds: "ds = c # cs" using assms(2) by (cases ds) auto
  have c: "is_digit c" and cs: "list_all is_digit cs" using assms(1) ds by auto
  have l: "is_digit (last ds)"
    using assms by (simp add: list_all_iff)
  have t1: "trim ds = ds"
    using assms(2) digit_props(2) [OF c] digit_props(2) [OF l] by (intro trim_id) (simp_all add: ds)
  have "\<not> is_space CHR ''-''" by (simp add: is_space_def)
  then have t2: "trim (CHR ''-'' # ds) = CHR ''-'' # ds"
    using assms(2) digit_props(2) [OF l] by (intro trim_id) simp_all
  have r1: "parse_radix ds = None" unfolding ds using cs by (rule parse_radix_digits)
  have r2: "parse_radix (CHR ''-'' # ds) = None" using assms(1) by (rule parse_radix_digits)
  have s: "\<not> startsWith ds ''-''" "\<not> startsWith ds ''+''"
    using digit_props(4,5) [OF c] by (simp_all add: startsWith_def ds)
  have m: "startsWith (CHR ''-'' # ds) ''-''" by (simp add: startsWith_def)
  have "c \<noteq> CHR ''I''" using c by (auto simp: is_digit_def)
  then have i: "ds \<noteq> ''Infinity''" "ds \<noteq> ''+Infinity''" "ds \<noteq> ''-Infinity''"
    using digit_props(4,5) [OF c] by (auto simp: ds)
  show "str_to_num ds = Fin (of_nat (digits_val 10 ds))"
    using assms(2) s i by (simp add: str_to_num_def t1 r1 parse_unsigned_digits [OF assms])
  show "str_to_num (CHR ''-'' # ds) = Fin (- of_nat (digits_val 10 ds))"
    using m i by (simp add: str_to_num_def t2 r2 parse_unsigned_digits [OF assms])
qed

lemma num_to_string_int:
  "num_to_string (Fin (of_int i)) = (if i < 0 then ''-'' else []) @ nat_digits (nat \<bar>i\<bar>)"
proof -
  have "\<bar>rat_of_int i\<bar> = of_int \<bar>i\<bar>" by simp
  then show ?thesis by (simp del: of_int_abs)
qed

lemma str_to_num_num_to_string_int:
  "str_to_num (num_to_string (Fin (of_int i))) = Fin (of_int i)"
proof (cases "i < 0")
  case True
  then show ?thesis
    using str_to_num_digits(2) [OF nat_digits_digits nat_digits_nonempty, of "nat \<bar>i\<bar>"]
    by (simp add: num_to_string_int digits_val_nat_digits)
next
  case False
  then show ?thesis
    using str_to_num_digits(1) [OF nat_digits_digits nat_digits_nonempty, of "nat \<bar>i\<bar>"]
    by (simp add: num_to_string_int digits_val_nat_digits)
qed

lemma str_to_num_NaN: "str_to_num (num_to_string NaN) = NaN"
  by (simp add: str_eval num_eval)

lemma frac_digits_digits: "list_all is_digit (frac_digits n r)"
  by (induction n arbitrary: r) (auto simp: digit_char_digit)

lemma num_to_string_no_bar: "CHR ''|'' \<notin> set (num_to_string n)"
proof (cases n)
  case NaN
  then show ?thesis by simp
next
  case (Fin r)
  have "CHR ''|'' \<notin> set (nat_digits k)" for k
    using nat_digits_digits [of k] by (auto simp: list_all_iff dest: digit_props(3))
  moreover have "CHR ''|'' \<notin> set (frac_digits k q)" for k q
    using frac_digits_digits [of k q] by (auto simp: list_all_iff dest: digit_props(3))
  ultimately show ?thesis using Fin by simp
qed simp_all

lemma key_parts_variant_key:
  assumes "CHR ''|'' \<notin> set (r_model r)" "CHR ''|'' \<notin> set (r_condition r)"
    "CHR ''|'' \<notin> set (r_market r)"
  shows "key_parts (variant_key r)
           = Some (r_model r, r_condition r, num_to_string (r_storage_gb r), r_market r)"
  using assms num_to_string_no_bar [of "r_storage_gb r"]
  by (simp add: key_parts_def variant_key_def split_on_append split_on_none)

lemma fold_addVar_keys:
  "fst ` set (fold addVar rows acc) = fst ` set acc \<union> variant_key ` set rows"
  by (induction rows arbitrary: acc) (auto simp: addVar_def dom_update)

lemma set_set_add: "set (set_add x xs) = insert x (set xs)"
  by (auto simp: set_add_def)

lemma distinct_set_add: "distinct (set_add x xs) = distinct xs"
  by (auto simp: set_add_def)

lemma stor_step_cases:
  "stor_step model market k (su, sn) =
     (case key_parts k of
        None \<Rightarrow> (su, sn)
      | Some (m, c, gb, mkt) \<Rightarrow>
          if m = model \<and> mkt = market \<and> c = ''usado'' then (set_add (str_to_num gb) su, sn)
          else if m = model \<and> mkt = market \<and> c = ''novo'' then (su, set_add (str_to_num gb) sn)
          else (su, sn))"
  by (auto simp: stor_step_def split: option.splits)

lemma fold_stor_step:
  "set (fst (fold (stor_step model market) ks (su, sn)))
     = set su \<union> {str_to_num gb | gb. \<exists>k \<in> set ks. key_parts k = Some (model, ''usado'', gb, market)}
   \<and> set (snd (fold (stor_step model market) ks (su, sn)))
     = set sn \<union> {str_to_num gb | gb. \<exists>k \<in> set ks. key_parts k = Some (model, ''novo'', gb, market)}
   \<and> (distinct su \<longrightarrow> distinct (fst (fold (stor_step model market) ks (su, sn))))
   \<and> (distinct sn \<longrightarrow> distinct (snd (fold (stor_step model market) ks (su, sn))))"
proof (induction ks arbitrary: su sn)
  case Nil
  then show ?case by simp
next
  case (Cons k ks)
  show ?case
  proof (cases "key_parts k")
    case None
    with Cons [of su sn] show ?thesis by (simp add: stor_step_cases)
  next
    case (Some q)
    obtain m c gb mkt where q: "q = (m, c, gb, mkt)" by (cases q)
    consider (u) "m = model" "mkt = market" "c = ''usado''"
      | (n) "m = model" "mkt = market" "c = ''novo''"
      | (o) "\<not> (m = model \<and> mkt = market \<and> c = ''usado'')" "\<not> (m = model \<and> mkt = market \<and> c = ''novo'')"
      by blast
    then show ?thesis
    proof cases
      case u
      then have st: "stor_step model market k (su, sn) = (set_add (str_to_num gb) su, sn)"
        by (simp add: stor_step_cases Some q)
      have k: "key_parts k = Some (model, ''usado'', gb, market)" using u Some q by simp
      from Cons [of "set_add (str_to_num gb) su" sn] k show ?thesis
        by (auto simp: st set_set_add distinct_set_add)
    next
      case n
      then have st: "stor_step model market k (su, sn) = (su, set_add (str_to_num gb) sn)"
        by (simp add: stor_step_cases Some q)
      have k: "key_parts k = Some (model, ''novo'', gb, market)" using n Some q by simp
      from Cons [of su "set_add (str_to_num gb) sn"] k show ?thesis
        by (auto simp: st set_set_add distinct_set_add)
    next
      case o
      then have st: "stor_step model market k (su, sn) = (su, sn)"
        by (auto simp: stor_step_cases Some q)
      have k: "key_parts k \<noteq> Some (model, ''usado'', gb', market)"
        "key_parts k \<noteq> Some (model, ''novo'', gb', market)" for gb'
        using o Some q by auto
      from Cons [of su sn] k show ?thesis
        by (auto simp: st)
    qed
  qed
qed

lemma set_insert_sorted: "set (insert_sorted x ys) = insert x (set ys)"
  by (induction ys) auto

lemma num_pos_sub: "x \<noteq> NaN \<Longrightarrow> y \<noteq> NaN \<Longrightarrow> num_pos (num_sub x y) = num_less y x"
  by (cases x; cases y) auto

lemma num_less_total: "x \<noteq> NaN \<Longrightarrow> y \<noteq> NaN \<Longrightarrow> x \<noteq> y \<Longrightarrow> num_less x y \<or> num_less y x"
  by (cases x; cases y) auto

lemma sorted_insert_sorted:
  assumes "sorted_wrt num_less ys" "x \<notin> set ys" "x \<noteq> NaN" "NaN \<notin> set ys"
  shows "sorted_wrt num_less (insert_sorted x ys)"
  using assms
proof (induction ys)
  case Nil
  then show ?case by simp
next
  case (Cons y ys)
  have y: "y \<noteq> NaN" "x \<noteq> y" using Cons.prems(2,4) by auto
  show ?case
  proof (cases "num_pos (num_sub x y)")
    case True
    then have "num_less y x" using Cons.prems(3) y(1) by (simp add: num_pos_sub)
    moreover have "sorted_wrt num_less (insert_sorted x ys)"
      using Cons by simp
    ultimately show ?thesis
      using True Cons.prems(1) by (simp add: set_insert_sorted)
  next
    case False
    then have "\<not> num_less y x" using Cons.prems(3) y(1) by (simp add: num_pos_sub)
    with num_less_total [OF Cons.prems(3) y] have "num_less x y" by blast
    then have "\<forall>z \<in> set ys. num_less x z"
      using Cons.prems(1) by (auto intro: num_less_trans)
    with False \<open>num_less x y\<close> Cons.prems(1) show ?thesis by simp
  qed
qed

lemma sort_numbers_sorted:
  assumes "distinct xs" "NaN \<notin> set xs"
  shows "sorted_wrt num_less (sort_numbers xs) \<and> set (sort_numbers xs) = set xs"
  using assms
proof (induction xs)
  case Nil
  then show ?case by (simp add: sort_numbers_def)
next
  case (Cons x xs)
  then have ih: "sorted_wrt num_less (sort_numbers xs)" "set (sort_numbers xs) = set xs" by auto
  have "sort_numbers (x # xs) = insert_sorted x (sort_numbers xs)"
    by (simp add: sort_numbers_def)
  moreover have "sorted_wrt num_less (insert_sorted x (sort_numbers xs))"
    using ih Cons.prems by (intro sorted_insert_sorted) auto
  ultimately show ?case using ih by (simp add: set_insert_sorted)
qed

lemma set_sort_numbers: "set (sort_numbers xs) = set xs"
  by (induction xs) (simp_all add: sort_numbers_def set_insert_sorted)

lemma sorted_num_less_distinct: "sorted_wrt num_less xs \<Longrightarrow> distinct xs"
proof (induction xs)
  case Nil
  then show ?case by simp
next
  case (Cons x xs)
  from Cons num_less_irrefl [of x] show ?case by auto
qed

subsection \<open>Storages of a product\<close>

lemma rows_condition:
  "r \<in> set (usedRows wb market) \<Longrightarrow> r_condition r = ''usado''"
  "r \<in> set (newRows wb market) \<Longrightarrow> r_condition r = ''novo''"
  by (auto simp: usedRows_def newRows_def normRow_def Let_def)

lemma variants_keys:
  "fst ` set (variants (buildCatalog wb market rng))
     = variant_key ` set (usedRows wb market @ newRows wb market)"
  using fold_addVar_keys [of "usedRows wb market @ newRows wb market" "[]"]
  by (simp add: buildCatalog_def Let_def del: fold_append)

text \<open>Splitting a text at a separator: the parts of the text before one occurrence of
  the separator, then the parts of the text after it.\<close>

lemma split_on_nonempty: "split_on d s \<noteq> []"
  by (induction s) (auto split: list.splits)

lemma split_on_join: "split_on d (xs @ d # ys) = split_on d xs @ split_on d ys"
proof (induction xs)
  case Nil
  show ?case by simp
next
  case (Cons c xs)
  obtain p ps where "split_on d xs = p # ps"
    using split_on_nonempty [of d xs] by (cases "split_on d xs") auto
  with Cons show ?case by simp
qed

lemma split_on_free: "x \<in> set (split_on d s) \<Longrightarrow> d \<notin> set x"
proof (induction s arbitrary: x)
  case Nil
  then show ?case by simp
next
  case (Cons c s)
  obtain p ps where ps: "split_on d s = p # ps"
    using split_on_nonempty [of d s] by (cases "split_on d s") auto
  from Cons.IH [of p] ps have p: "d \<notin> set p" by simp
  from Cons.IH ps have rest: "\<forall>y \<in> set ps. d \<notin> set y" by simp
  show ?case
  proof (cases "c = d")
    case True
    with Cons.prems ps p rest show ?thesis by auto
  next
    case False
    with Cons.prems ps p rest show ?thesis by auto
  qed
qed

lemma hd_split_on: "hd (split_on d s) = takeWhile (\<lambda>c. c \<noteq> d) s"
proof (induction s)
  case Nil
  show ?case by simp
next
  case (Cons c s)
  obtain p ps where "split_on d s = p # ps"
    using split_on_nonempty [of d s] by (cases "split_on d s") auto
  with Cons show ?case by simp
qed

lemma takeWhile_sep:
  assumes "takeWhile (\<lambda>c. c \<noteq> d) s = t"
  shows "s = t \<or> startsWith s (t @ [d])"
proof (cases "dropWhile (\<lambda>c. c \<noteq> d) s")
  case Nil
  with takeWhile_dropWhile_id [of "\<lambda>c. c \<noteq> d" s] assms show ?thesis by simp
next
  case (Cons x xs)
  with hd_dropWhile [of "\<lambda>c. c \<noteq> d" s] have "x = d" by simp
  with takeWhile_dropWhile_id [of "\<lambda>c. c \<noteq> d" s] assms Cons have "s = t @ d # xs" by simp
  then show ?thesis by (simp add: startsWith_def)
qed

lemma startsWith_sep_mem:
  assumes "startsWith s (t @ [d])"
  shows "d \<in> set s"
proof -
  from assms have "take (length (t @ [d])) s = t @ [d]" by (simp add: startsWith_def)
  moreover have "d \<in> set (t @ [d])" by simp
  ultimately have "d \<in> set (take (length (t @ [d])) s)" by simp
  then show ?thesis by (rule in_set_takeD)
qed

lemma bar_free_no_clash: "bar_free r \<Longrightarrow> \<not> key_clash model market r"
  using startsWith_sep_mem [of "r_model r" model "CHR ''|''"]
    startsWith_sep_mem [of "r_market r" market "CHR ''|''"]
  by (auto simp: bar_free_def key_clash_def)

text \<open>The parts of the key of a row, and what the loops read in them.\<close>

lemma split_variant_key:
  assumes "CHR ''|'' \<notin> set (r_condition r)"
  shows "split_on CHR ''|'' (variant_key r)
       = split_on CHR ''|'' (r_model r) @ [r_condition r, num_to_string (r_storage_gb r)]
           @ split_on CHR ''|'' (r_market r)"
  using assms num_to_string_no_bar [of "r_storage_gb r"]
  by (simp add: variant_key_def split_on_join split_on_none)

lemma key_partsD:
  "key_parts k = Some (m, c, gb, mkt) \<Longrightarrow> \<exists>t. split_on CHR ''|'' k = m # c # gb # mkt # t"
  by (auto simp: key_parts_def split: list.splits)

lemma key_parts_free:
  assumes "key_parts k = Some (m, c, gb, mkt)"
  shows "CHR ''|'' \<notin> set m" and "CHR ''|'' \<notin> set mkt"
proof -
  from key_partsD [OF assms] obtain t where t: "split_on CHR ''|'' k = m # c # gb # mkt # t" ..
  show "CHR ''|'' \<notin> set m" using split_on_free [of m "CHR ''|''" k] t by simp
  show "CHR ''|'' \<notin> set mkt" using split_on_free [of mkt "CHR ''|''" k] t by simp
qed

lemma key_parts_row:
  assumes "r \<in> set (usedRows wb m0 @ newRows wb m0)"
    and "\<not> key_clash model market r"
    and "key_parts (variant_key r) = Some (model, c, gb, market)"
  shows "r_model r = model \<and> r_market r = market \<and> c = r_condition r
       \<and> gb = num_to_string (r_storage_gb r)"
proof -
  from assms(1) have "r_condition r = ''usado'' \<or> r_condition r = ''novo''"
    using rows_condition [of r wb m0] by auto
  then have "CHR ''|'' \<notin> set (r_condition r)" by auto
  note sp = split_variant_key [OF this]
  from key_partsD [OF assms(3)] obtain t where
    t: "split_on CHR ''|'' (variant_key r) = model # c # gb # market # t" ..
  obtain a as where a: "split_on CHR ''|'' (r_model r) = a # as"
    using split_on_nonempty [of "CHR ''|''" "r_model r"]
    by (cases "split_on CHR ''|'' (r_model r)") auto
  from t sp a have "a = model" by simp
  with a hd_split_on [of "CHR ''|''" "r_model r"]
  have "takeWhile (\<lambda>c. c \<noteq> CHR ''|'') (r_model r) = model" by simp
  from takeWhile_sep [OF this] assms(2) have m: "r_model r = model"
    by (auto simp: key_clash_def)
  have "CHR ''|'' \<notin> set model" using key_parts_free(1) [OF assms(3)] .
  then have "split_on CHR ''|'' (r_model r) = [model]" using m by (simp add: split_on_none)
  with t sp have e: "c = r_condition r" "gb = num_to_string (r_storage_gb r)"
    and k: "split_on CHR ''|'' (r_market r) = market # t" by simp_all
  from k hd_split_on [of "CHR ''|''" "r_market r"]
  have "takeWhile (\<lambda>c. c \<noteq> CHR ''|'') (r_market r) = market" by simp
  from takeWhile_sep [OF this] assms(2) m have "r_market r = market"
    by (auto simp: key_clash_def)
  with m e show ?thesis by simp
qed

lemma key_parts_own:
  assumes "r \<in> set (usedRows wb m0 @ newRows wb m0)"
    and "CHR ''|'' \<notin> set (r_model r)" "CHR ''|'' \<notin> set (r_market r)"
  shows "key_parts (variant_key r)
           = Some (r_model r, r_condition r, num_to_string (r_storage_gb r), r_market r)"
proof -
  from assms(1) have "r_condition r = ''usado'' \<or> r_condition r = ''novo''"
    using rows_condition [of r wb m0] by auto
  then have "CHR ''|'' \<notin> set (r_condition r)" by auto
  with assms(2,3) show ?thesis by (intro key_parts_variant_key)
qed

lemma matching_keys:
  assumes clash: "\<forall>r \<in> set (usedRows wb market @ newRows wb market). \<not> key_clash model market r"
    and free: "CHR ''|'' \<notin> set model" "CHR ''|'' \<notin> set market"
  shows "{str_to_num gb | gb. \<exists>k \<in> set (map fst (variants (buildCatalog wb market rng))).
            key_parts k = Some (model, ''usado'', gb, market)}
         = (\<lambda>r. str_to_num (num_to_string (r_storage_gb r))) `
             {r \<in> set (usedRows wb market). r_model r = model \<and> r_market r = market}" (is "?L1 = ?R1")
    and "{str_to_num gb | gb. \<exists>k \<in> set (map fst (variants (buildCatalog wb market rng))).
            key_parts k = Some (model, ''novo'', gb, market)}
         = (\<lambda>r. str_to_num (num_to_string (r_storage_gb r))) `
             {r \<in> set (newRows wb market). r_model r = model \<and> r_market r = market}" (is "?L2 = ?R2")
proof -
  let ?rows = "usedRows wb market @ newRows wb market"
  have keys: "set (map fst (variants (buildCatalog wb market rng))) = variant_key ` set ?rows"
    using variants_keys [of wb market rng] by simp
  have kp: "key_parts (variant_key r)
      = Some (model, r_condition r, num_to_string (r_storage_gb r), market)"
    if "r \<in> set ?rows" "r_model r = model" "r_market r = market" for r
    using key_parts_own [OF that(1)] free that(2,3) by simp
  have diff: "''usado'' \<noteq> ''novo''" by simp
  show "?L1 = ?R1"
  proof (intro set_eqI iffI)
    fix x assume "x \<in> ?L1"
    then obtain gb r where x: "x = str_to_num gb" and r: "r \<in> set ?rows"
      and k: "key_parts (variant_key r) = Some (model, ''usado'', gb, market)"
      unfolding keys by auto
    from r clash have "\<not> key_clash model market r" by blast
    from key_parts_row [OF r this k] have f: "r_model r = model" "r_condition r = ''usado''"
      "gb = num_to_string (r_storage_gb r)" "r_market r = market" by auto
    from r f(2) rows_condition(2) [of r wb market] diff have "r \<in> set (usedRows wb market)" by auto
    with f x show "x \<in> ?R1" by auto
  next
    fix x assume "x \<in> ?R1"
    then obtain r where r: "r \<in> set (usedRows wb market)" "r_model r = model" "r_market r = market"
      and x: "x = str_to_num (num_to_string (r_storage_gb r))" by auto
    from r(1) have r': "r \<in> set ?rows" by simp
    from kp [OF r' r(2,3)] rows_condition(1) [OF r(1)]
    have "key_parts (variant_key r) = Some (model, ''usado'', num_to_string (r_storage_gb r), market)"
      by simp
    with r' x show "x \<in> ?L1" unfolding keys by blast
  qed
  show "?L2 = ?R2"
  proof (intro set_eqI iffI)
    fix x assume "x \<in> ?L2"
    then obtain gb r where x: "x = str_to_num gb" and r: "r \<in> set ?rows"
      and k: "key_parts (variant_key r) = Some (model, ''novo'', gb, market)"
      unfolding keys by auto
    from r clash have "\<not> key_clash model market r" by blast
    from key_parts_row [OF r this k] have f: "r_model r = model" "r_condition r = ''novo''"
      "gb = num_to_string (r_storage_gb r)" "r_market r = market" by auto
    from r f(2) rows_condition(1) [of r wb market] diff have "r \<in> set (newRows wb market)" by auto
    with f x show "x \<in> ?R2" by auto
  next
    fix x assume "x \<in> ?R2"
    then obtain r where r: "r \<in> set (newRows wb market)" "r_model r = model" "r_market r = market"
      and x: "x = str_to_num (num_to_string (r_storage_gb r))" by auto
    from r(1) have r': "r \<in> set ?rows" by simp
    from kp [OF r' r(2,3)] rows_condition(2) [OF r(1)]
    have "key_parts (variant_key r) = Some (model, ''novo'', num_to_string (r_storage_gb r), market)"
      by simp
    with r' x show "x \<in> ?L2" unfolding keys by blast
  qed
qed

lemma stor_sets_rows:
  assumes "\<forall>r \<in> set (usedRows wb market @ newRows wb market). \<not> key_clash model market r"
    and "CHR ''|'' \<notin> set model" "CHR ''|'' \<notin> set market"
  shows "set (fst (stor_sets model market (variants (buildCatalog wb market rng))))
         = (\<lambda>r. str_to_num (num_to_string (r_storage_gb r))) `
             {r \<in> set (usedRows wb market). r_model r = model \<and> r_market r = market}"
    and "set (snd (stor_sets model market (variants (buildCatalog wb market rng))))
         = (\<lambda>r. str_to_num (num_to_string (r_storage_gb r))) `
             {r \<in> set (newRows wb market). r_model r = model \<and> r_market r = market}"
  using fold_stor_step [of model market "map fst (variants (buildCatalog wb market rng))" "[]" "[]"]
    matching_keys [OF assms, of rng]
  unfolding stor_sets_def by simp_all

lemma stor_sets_distinct:
  "distinct (fst (stor_sets model market vs))" "distinct (snd (stor_sets model market vs))"
  using fold_stor_step [of model market "map fst vs" "[]" "[]"]
  unfolding stor_sets_def by simp_all

text \<open>A model with a storage in a market has a key that reads as its own, so neither the
  model nor the market holds a vertical bar.\<close>

lemma stor_sets_free:
  assumes "stor_sets model market vs \<noteq> ([], [])"
  shows "CHR ''|'' \<notin> set model" and "CHR ''|'' \<notin> set market"
proof -
  from fold_stor_step [of model market "map fst vs" "[]" "[]"]
  have s: "set (fst (stor_sets model market vs))
      = {str_to_num gb | gb. \<exists>k \<in> set (map fst vs). key_parts k = Some (model, ''usado'', gb, market)}"
    "set (snd (stor_sets model market vs))
      = {str_to_num gb | gb. \<exists>k \<in> set (map fst vs). key_parts k = Some (model, ''novo'', gb, market)}"
    unfolding stor_sets_def by simp_all
  from assms have "set (fst (stor_sets model market vs)) \<noteq> {}
      \<or> set (snd (stor_sets model market vs)) \<noteq> {}"
    by (cases "stor_sets model market vs") auto
  then obtain k c gb where k: "key_parts k = Some (model, c, gb, market)"
    unfolding s by blast
  show "CHR ''|'' \<notin> set model" using key_parts_free(1) [OF k] .
  show "CHR ''|'' \<notin> set market" using key_parts_free(2) [OF k] .
qed

lemma is_integer_D: "is_integer n \<Longrightarrow> \<exists>i::int. n = Fin (of_int i)"
  by (cases n) (auto simp: is_integer_def)

lemma is_integer_roundtrip:
  assumes "is_integer n"
  shows "str_to_num (num_to_string n) = n"
proof -
  from is_integer_D [OF assms] obtain i :: int where "n = Fin (of_int i)" ..
  then show ?thesis by (simp only: str_to_num_num_to_string_int)
qed

text \<open>
  C6, amended.  Take a product of the catalog whose retained rows in the requested market
  have integer storages, and let no retained row have a model that is the product's model
  followed by a vertical bar and more text, nor the product's model with a market that is
  the requested market followed by a vertical bar and more text.  Then both
  \<open>storages.usado\<close> and \<open>storages.novo\<close> of the product are strictly ascending sequences of
  integers with no duplicates, and hold exactly the storages of the retained rows of that
  model, of that condition, in the requested market.  Nothing is asked of the rows of the
  other models.
\<close>

theorem storages_sorted_exact:
  assumes "p \<in> set (products (buildCatalog wb market rng))"
    and "list_all (\<lambda>r. is_integer (r_storage_gb r))
           (filter (\<lambda>r. r_model r = p_model p \<and> r_market r = market)
              (usedRows wb market @ newRows wb market))"
    and "list_all (\<lambda>r. \<not> key_clash (p_model p) market r)
           (usedRows wb market @ newRows wb market)"
  shows "sorted_wrt num_less (p_usado p) \<and> distinct (p_usado p) \<and> list_all is_integer (p_usado p)
       \<and> set (p_usado p) = r_storage_gb `
            {r \<in> set (usedRows wb market). r_model r = p_model p \<and> r_market r = market}
       \<and> sorted_wrt num_less (p_novo p) \<and> distinct (p_novo p) \<and> list_all is_integer (p_novo p)
       \<and> set (p_novo p) = r_storage_gb `
            {r \<in> set (newRows wb market). r_model r = p_model p \<and> r_market r = market}"
proof -
  let ?vs = "variants (buildCatalog wb market rng)"
  let ?su = "fst (stor_sets (p_model p) market ?vs)"
  let ?sn = "snd (stor_sets (p_model p) market ?vs)"
  have clash: "\<forall>r \<in> set (usedRows wb market @ newRows wb market). \<not> key_clash (p_model p) market r"
    using assms(3) by (simp add: list_all_iff)
  have ints: "is_integer (r_storage_gb r)"
    if "r \<in> set (usedRows wb market @ newRows wb market)" "r_model r = p_model p" "r_market r = market"
    for r
    using assms(2) that by (auto simp: list_all_iff)
  from products_from_byModel [OF assms(1)] obtain b where
    b: "product_out market ?vs b = [p]" by blast
  from product_out_cases [of market ?vs b] b
  have pm: "p_model p = b_model b" and pu: "p_usado p = sort_numbers ?su"
    and pn: "p_novo p = sort_numbers ?sn"
    and ne: "stor_sets (p_model p) market ?vs \<noteq> ([], [])" by auto
  note free = stor_sets_free [OF ne]
  have su: "set ?su = r_storage_gb `
      {r \<in> set (usedRows wb market). r_model r = p_model p \<and> r_market r = market}"
    unfolding stor_sets_rows(1) [OF clash free]
    by (rule image_cong [OF refl]) (use ints in \<open>auto simp: is_integer_roundtrip\<close>)
  have sn: "set ?sn = r_storage_gb `
      {r \<in> set (newRows wb market). r_model r = p_model p \<and> r_market r = market}"
    unfolding stor_sets_rows(2) [OF clash free]
    by (rule image_cong [OF refl]) (use ints in \<open>auto simp: is_integer_roundtrip\<close>)
  have iu: "list_all is_integer ?su" using su ints by (auto simp: list_all_iff)
  have inn: "list_all is_integer ?sn" using sn ints by (auto simp: list_all_iff)
  have nu: "NaN \<notin> set ?su" using iu by (auto simp: list_all_iff is_integer_def)
  have nn: "NaN \<notin> set ?sn" using inn by (auto simp: list_all_iff is_integer_def)
  from sort_numbers_sorted [OF stor_sets_distinct(1) nu]
  have 1: "sorted_wrt num_less (p_usado p)" "set (p_usado p) = set ?su" unfolding pu by auto
  from sort_numbers_sorted [OF stor_sets_distinct(2) nn]
  have 2: "sorted_wrt num_less (p_novo p)" "set (p_novo p) = set ?sn" unfolding pn by auto
  have 3: "list_all is_integer (p_usado p)" "list_all is_integer (p_novo p)"
    using iu inn 1(2) 2(2) by (auto simp: list_all_iff)
  from 1 2 3 su sn sorted_num_less_distinct show ?thesis by auto
qed

lemma catalog_storages:
  "buildCatalog wb_storages ''AO'' rng =
   \<lparr>products =
      [\<lparr>p_id = ''iphone-13'', p_model = ''iPhone 13'', p_type = ''iphone'',
         p_rating = synth_rating (rng 0), p_reviews = synth_reviews (rng 1),
         p_colors = default_palette, p_image = JStr ''/public/products/iphone-13.png'',
         p_usado = [Fin 128, Fin 256], p_novo = [Fin 512]\<rparr>,
       \<lparr>p_id = ''airpods'', p_model = ''AirPods'', p_type = ''acessorio'',
         p_rating = synth_rating (rng 2), p_reviews = synth_reviews (rng 3),
         p_colors = default_palette, p_image = JStr ''/public/products/airpods.png'',
         p_usado = [], p_novo = [NaN]\<rparr>],
    variants =
      [(''iPhone 13|usado|256|AO'', \<lparr>v_price = JNum (Fin 480000), v_currency = ''AOA''\<rparr>),
       (''iPhone 13|usado|128|AO'', \<lparr>v_price = JNum (Fin 450000), v_currency = ''AOA''\<rparr>),
       (''iPhone 13|usado|64|US'', \<lparr>v_price = JNum (Fin 400), v_currency = ''USD''\<rparr>),
       (''iPhone 13|novo|512|AO'', \<lparr>v_price = JNum (Fin 900000), v_currency = ''AOA''\<rparr>),
       (''AirPods|novo|NaN|AO'', \<lparr>v_price = JNum (Fin 90000), v_currency = ''AOA''\<rparr>),
       (''Case|Blue|novo|NaN|AO'', \<lparr>v_price = JNum (Fin 5000), v_currency = ''AOA''\<rparr>)]\<rparr>"
  by (simp add: wb_storages_def str_eval num_eval field_eval catalog_eval)
     (simp add: eval_nat_numeral)

lemma rows_storages:
  "map (\<lambda>r. (r_model r, r_market r, r_storage_gb r)) (usedRows wb_storages ''AO'') =
     [(''iPhone 13'', ''AO'', Fin 256), (''iPhone 13'', ''AO'', Fin 128),
      (''iPhone 13'', ''AO'', Fin 256), (''iPhone 13'', ''US'', Fin 64)]"
  "map (\<lambda>r. (r_model r, r_market r, r_storage_gb r)) (newRows wb_storages ''AO'') =
     [(''iPhone 13'', ''AO'', Fin 512), (''AirPods'', ''AO'', NaN), (''Case|Blue'', ''AO'', NaN)]"
  by (simp_all add: wb_storages_def usedRows_def newRows_def retained_def normRow_def
      str_eval num_eval field_eval)

lemma rows_storages_clean:
  "list_all (\<lambda>r. is_integer (r_storage_gb r))
     (filter (\<lambda>r. r_model r = ''iPhone 13'' \<and> r_market r = ''AO'')
        (usedRows wb_storages ''AO'' @ newRows wb_storages ''AO''))"
  "list_all (\<lambda>r. \<not> key_clash ''iPhone 13'' ''AO'' r)
     (usedRows wb_storages ''AO'' @ newRows wb_storages ''AO'')"
proof -
  let ?t = "\<lambda>r. (r_model r, r_market r, r_storage_gb r)"
  let ?rows = "usedRows wb_storages ''AO'' @ newRows wb_storages ''AO''"
  have rows: "map ?t ?rows =
     [(''iPhone 13'', ''AO'', Fin 256), (''iPhone 13'', ''AO'', Fin 128),
      (''iPhone 13'', ''AO'', Fin 256), (''iPhone 13'', ''US'', Fin 64),
      (''iPhone 13'', ''AO'', Fin 512), (''AirPods'', ''AO'', NaN), (''Case|Blue'', ''AO'', NaN)]"
    by (simp add: rows_storages)
  have "list_all (\<lambda>t. is_integer (snd (snd t)))
          (filter (\<lambda>t. fst t = ''iPhone 13'' \<and> fst (snd t) = ''AO'') (map ?t ?rows))"
    unfolding rows by (simp add: is_integer_def)
  then show "list_all (\<lambda>r. is_integer (r_storage_gb r))
     (filter (\<lambda>r. r_model r = ''iPhone 13'' \<and> r_market r = ''AO'') ?rows)"
    by (simp add: filter_map list.pred_map comp_def)
  have "list_all (\<lambda>t. \<not> (startsWith (fst t) ''iPhone 13|''
            \<or> (fst t = ''iPhone 13'' \<and> startsWith (fst (snd t)) ''AO|''))) (map ?t ?rows)"
    unfolding rows by (simp add: startsWith_def)
  then show "list_all (\<lambda>r. \<not> key_clash ''iPhone 13'' ''AO'' r) ?rows"
    by (simp add: list.pred_map comp_def key_clash_def)
qed

theorem storages_sorted_exact_witness:
  "hd (products (buildCatalog wb_storages ''AO'' draws_half))
        \<in> set (products (buildCatalog wb_storages ''AO'' draws_half))
   \<and> p_model (hd (products (buildCatalog wb_storages ''AO'' draws_half))) = ''iPhone 13''
   \<and> list_all (\<lambda>r. is_integer (r_storage_gb r))
       (filter (\<lambda>r. r_model r = ''iPhone 13'' \<and> r_market r = ''AO'')
          (usedRows wb_storages ''AO'' @ newRows wb_storages ''AO''))
   \<and> list_all (\<lambda>r. \<not> key_clash ''iPhone 13'' ''AO'' r)
       (usedRows wb_storages ''AO'' @ newRows wb_storages ''AO'')
   \<and> map (\<lambda>r. (r_model r, r_market r, r_storage_gb r)) (usedRows wb_storages ''AO'') =
       [(''iPhone 13'', ''AO'', Fin 256), (''iPhone 13'', ''AO'', Fin 128),
        (''iPhone 13'', ''AO'', Fin 256), (''iPhone 13'', ''US'', Fin 64)]
   \<and> map (\<lambda>r. (r_model r, r_market r, r_storage_gb r)) (newRows wb_storages ''AO'') =
       [(''iPhone 13'', ''AO'', Fin 512), (''AirPods'', ''AO'', NaN), (''Case|Blue'', ''AO'', NaN)]
   \<and> p_usado (hd (products (buildCatalog wb_storages ''AO'' draws_half))) = [Fin 128, Fin 256]
   \<and> p_novo (hd (products (buildCatalog wb_storages ''AO'' draws_half))) = [Fin 512]
   \<and> sorted_wrt num_less (p_usado (hd (products (buildCatalog wb_storages ''AO'' draws_half))))"
  using storages_sorted_exact [of "hd (products (buildCatalog wb_storages ''AO'' draws_half))"
      wb_storages "''AO''" draws_half]
    rows_storages_clean rows_storages
  by (simp add: catalog_storages)

text \<open>
  C6, as stated, fails: a row with no storage column has the storage \<^verbatim>\<open>NaN\<close>, and the
  product's \<open>storages.usado\<close> is the one-element sequence of \<^verbatim>\<open>NaN\<close>, which is no integer.
\<close>

theorem storage_missing_counterexample:
  "map r_storage_gb (usedRows wb_no_storage ''AO'') = [NaN]
   \<and> map p_usado (products (buildCatalog wb_no_storage ''AO'' draws_half)) = [[NaN]]
   \<and> \<not> list_all is_integer [NaN]"
  by (simp add: wb_no_storage_def is_integer_def str_eval num_eval field_eval catalog_eval)

text \<open>
  C5.  A product is to appear in \<open>products\<close> exactly when it has a retained variant in the
  requested market.  The model \<^verbatim>\<open>A|B\<close> has one: its row is retained, in the market AO, and
  its key is in the variant index.  The loop that collects the storages splits the key at
  every bar, reads the model as \<^verbatim>\<open>A\<close> and the market as \<^verbatim>\<open>128\<close>, finds no storage, and
  the product is left out.  (For rows without a bar in model and market the claim holds:
  \<open>products_iff_market_rows\<close>.)
\<close>

theorem bar_in_model_dropped:
  "map (\<lambda>r. (r_model r, r_market r, r_condition r, r_storage_gb r)) (usedRows wb_bar ''AO'')
     = [(''A|B'', ''AO'', ''usado'', Fin 128)]
   \<and> map fst (variants (buildCatalog wb_bar ''AO'' draws_half)) = [''A|B|usado|128|AO'']
   \<and> key_parts ''A|B|usado|128|AO'' = Some (''A'', ''B'', ''usado'', ''128'')
   \<and> products (buildCatalog wb_bar ''AO'' draws_half) = []"
  by (simp add: wb_bar_def str_eval num_eval field_eval catalog_eval)

lemma products_iff_market_rows:
  assumes "list_all bar_free (usedRows wb market @ newRows wb market)"
  shows "p_model ` set (products (buildCatalog wb market rng))
       = r_model ` {r \<in> set (usedRows wb market @ newRows wb market). r_market r = market}"
proof -
  let ?rows = "usedRows wb market @ newRows wb market"
  let ?vs = "variants (buildCatalog wb market rng)"
  have bars: "\<forall>r \<in> set ?rows. CHR ''|'' \<notin> set (r_model r) \<and> CHR ''|'' \<notin> set (r_market r)"
    using assms by (auto simp: list_all_iff bar_free_def)
  have clash: "\<forall>r \<in> set ?rows. \<not> key_clash m market r" for m
    using assms bar_free_no_clash by (auto simp: list_all_iff)
  have empty: "stor_sets m market ?vs = ([], []) \<longleftrightarrow>
      \<not> (\<exists>r \<in> set ?rows. r_model r = m \<and> r_market r = market)"
    if "CHR ''|'' \<notin> set m" "CHR ''|'' \<notin> set market" for m
  proof -
    have "stor_sets m market ?vs = ([], []) \<longleftrightarrow>
        set (fst (stor_sets m market ?vs)) = {} \<and> set (snd (stor_sets m market ?vs)) = {}"
      by (cases "stor_sets m market ?vs") simp
    also have "\<dots> \<longleftrightarrow> \<not> (\<exists>r \<in> set ?rows. r_model r = m \<and> r_market r = market)"
      unfolding stor_sets_rows(1,2) [OF clash that] by auto
    finally show ?thesis .
  qed
  show ?thesis
  proof (intro set_eqI iffI)
    fix m assume "m \<in> p_model ` set (products (buildCatalog wb market rng))"
    then obtain p where p: "p \<in> set (products (buildCatalog wb market rng))" "p_model p = m" by auto
    from products_from_byModel [OF p(1)] obtain b where b: "product_out market ?vs b = [p]" by blast
    from product_out_cases [of market ?vs b] b p(2)
    have ne: "stor_sets m market ?vs \<noteq> ([], [])" by auto
    with empty [OF stor_sets_free [OF ne]]
    show "m \<in> r_model ` {r \<in> set ?rows. r_market r = market}" by auto
  next
    fix m assume "m \<in> r_model ` {r \<in> set ?rows. r_market r = market}"
    then obtain r where r: "r \<in> set ?rows" "r_market r = market" "r_model r = m" by auto
    then have "m \<in> set (map b_model (byModel wb market rng))"
      unfolding byModel_models by auto
    then obtain b where b: "b \<in> set (byModel wb market rng)" "b_model b = m" by auto
    from bars r have "CHR ''|'' \<notin> set m" "CHR ''|'' \<notin> set market" by auto
    from empty [OF this] r b(2) have "stor_sets (b_model b) market ?vs \<noteq> ([], [])" by auto
    with product_out_cases [of market ?vs b] obtain p where
      p: "product_out market ?vs b = [p]" "p_model p = b_model b" by auto
    have prods: "products (buildCatalog wb market rng)
        = concat (map (product_out market ?vs) (byModel wb market rng))"
      by (simp add: buildCatalog_def Let_def)
    have "p \<in> set (product_out market ?vs b)" using p(1) by simp
    then have "p \<in> set (products (buildCatalog wb market rng))"
      unfolding prods using b(1) by auto
    with p(2) b(2) show "m \<in> p_model ` set (products (buildCatalog wb market rng))" by auto
  qed
qed

lemma avail_step_set:
  "set (fold (avail_step city) rows acc) = set acc \<union>
     {normModel (or_chain [field r ''model'', field r ''Model'', JStr []]) | r.
        r \<in> set rows
        \<and> normModel (or_chain [field r ''model'', field r ''Model'', JStr []]) \<noteq> []
        \<and> str_includes (toLowerCase (js_String
             (or_chain [field r ''disponibilidade'', field r ''Disponibilidade'', JStr []]))) city}"
  by (induction rows arbitrary: acc) (auto simp: avail_step_def Let_def set_set_add)

lemma modelsAvailable_set:
  "set (modelsAvailable wb city) =
     {normModel (or_chain [field r ''model'', field r ''Model'', JStr []]) | r.
        r \<in> set (prices_usados wb @ prices_novos wb)
        \<and> normModel (or_chain [field r ''model'', field r ''Model'', JStr []]) \<noteq> []
        \<and> str_includes (toLowerCase (js_String
             (or_chain [field r ''disponibilidade'', field r ''Disponibilidade'', JStr []]))) city}"
  unfolding modelsAvailable_def avail_step_set by simp

lemma availability_examples:
  "str_includes (toLowerCase ''Luanda, Benguela'') ''luanda''"
  "\<not> str_includes (toLowerCase ''Huambo'') ''luanda''"
  "''iPhone 13'' \<in> set (modelsAvailable wb_demo ''luanda'')"
  "''Apple Watch'' \<notin> set (modelsAvailable wb_demo ''luanda'')"
  by (simp_all add: available_demo str_eval)

text \<open>
  C8.  Every row retained in the catalog whose availability contains the city is to have
  its model in the availability set, under any alias of the model column.  A row with its
  model in the column \<^verbatim>\<open>modelo\<close> and the availability \<^verbatim>\<open>Luanda\<close> is retained, and its
  product is in the catalog; the second scan reads the columns \<^verbatim>\<open>model\<close> and \<^verbatim>\<open>Model\<close>
  only, so the availability set is empty and the featured list has no item.  (For rows
  with the model in one of those two columns the set is as claimed, \<open>modelsAvailable_set\<close>,
  and the two examples of the claim hold, \<open>availability_examples\<close>.)
\<close>

theorem model_alias_not_available:
  "map (\<lambda>r. (r_model r, r_disponibilidade r)) (usedRows wb_alias ''AO'') = [(''iPhone 13'', ''Luanda'')]
   \<and> map p_model (products (buildCatalog wb_alias ''AO'' draws_half)) = [''iPhone 13'']
   \<and> str_includes (toLowerCase ''Luanda'') ''luanda''
   \<and> modelsAvailable wb_alias ''luanda'' = []
   \<and> featured (q_demo JUndef) (Some wb_alias) [] ''http://h'' draws_half
        = Inr \<lparr>res_market = ''AO'', res_count = Fin 8, res_items = []\<rparr>"
proof -
  have a: "modelsAvailable wb_alias ''luanda'' = []"
    by (simp add: wb_alias_def modelsAvailable_def avail_step_def set_add_def str_eval field_eval)
  have b: "map p_model (products (buildCatalog wb_alias ''AO'' draws_half)) = [''iPhone 13'']"
    by (simp add: wb_alias_def str_eval num_eval field_eval catalog_eval)
  have c: "map (\<lambda>r. (r_model r, r_disponibilidade r)) (usedRows wb_alias ''AO'') = [(''iPhone 13'', ''Luanda'')]"
    by (simp add: wb_alias_def str_eval num_eval field_eval catalog_eval)
  have d: "featured (q_demo JUndef) (Some wb_alias) [] ''http://h'' draws_half
        = Inr \<lparr>res_market = ''AO'', res_count = Fin 8, res_items = []\<rparr>"
    by (simp add: featured_def query_demo featured_items_def a ordered_items_def)
       (simp add: q_demo_def clamp_count_def js_or_def)
  have e: "str_includes (toLowerCase ''Luanda'') ''luanda''" by (simp add: str_eval)
  from a b c d e show ?thesis by blast
qed

subsection \<open>The minimum price of a featured item\<close>

text \<open>When the keys of the other rows cannot be taken for keys of a model in a market, the
  entries \<^verbatim>\<open>minPriceForModel\<close> accepts for them are the entries of their rows.\<close>

lemma key_matches_row:
  assumes "r \<in> set (usedRows wb m0 @ newRows wb m0)"
    and "\<not> key_clash model market r"
    and "CHR ''|'' \<notin> set model" "CHR ''|'' \<notin> set market"
  shows "key_matches model market (variant_key r, v) \<longleftrightarrow> r_model r = model \<and> r_market r = market"
proof
  assume "key_matches model market (variant_key r, v)"
  then obtain c gb where "key_parts (variant_key r) = Some (model, c, gb, market)"
    by (auto simp: key_matches_def split: option.splits)
  from key_parts_row [OF assms(1,2) this] show "r_model r = model \<and> r_market r = market" by simp
next
  assume a: "r_model r = model \<and> r_market r = market"
  with key_parts_own [OF assms(1)] assms(3,4)
  have "key_parts (variant_key r)
      = Some (model, r_condition r, num_to_string (r_storage_gb r), market)" by simp
  then show "key_matches model market (variant_key r, v)" by (simp add: key_matches_def)
qed

lemma key_matches_model_entries:
  assumes "list_all (\<lambda>r. \<not> key_clash model market r) (usedRows wb m0 @ newRows wb m0)"
    and "CHR ''|'' \<notin> set model" "CHR ''|'' \<notin> set market"
  shows "filter (key_matches model market) (variants (buildCatalog wb m0 rng))
       = model_entries (usedRows wb m0 @ newRows wb m0) model market
           (variants (buildCatalog wb m0 rng))"
  unfolding model_entries_def
proof (rule filter_cong [OF refl])
  fix e assume "e \<in> set (variants (buildCatalog wb m0 rng))"
  from variants_from_rows [OF this] have
    "\<exists>r \<in> set (usedRows wb m0 @ newRows wb m0). fst e = variant_key r" by force
  then obtain r where
    r: "r \<in> set (usedRows wb m0 @ newRows wb m0)" and e: "fst e = variant_key r" by blast
  let ?own = "filter (\<lambda>r. r_model r = model \<and> r_market r = market) (usedRows wb m0 @ newRows wb m0)"
  have m: "key_matches model market (variant_key r', snd e) \<longleftrightarrow> r_model r' = model \<and> r_market r' = market"
    if "r' \<in> set (usedRows wb m0 @ newRows wb m0)" for r'
    using key_matches_row [OF that _ assms(2,3)] assms(1) that by (simp add: list_all_iff)
  have k: "key_matches model market e = key_matches model market (fst e, snd e)" by simp
  show "key_matches model market e \<longleftrightarrow> fst e \<in> set (map variant_key ?own)"
  proof
    assume "key_matches model market e"
    with m [OF r] e k have "r_model r = model \<and> r_market r = market" by simp
    with r e show "fst e \<in> set (map variant_key ?own)" by auto
  next
    assume "fst e \<in> set (map variant_key ?own)"
    then obtain r' where r': "r' \<in> set (usedRows wb m0 @ newRows wb m0)"
      "r_model r' = model" "r_market r' = market" "fst e = variant_key r'" by auto
    from m [OF r'(1)] r'(2,3,4) k show "key_matches model market e" by simp
  qed
qed

text \<open>
  For such a model, the minimum price of its featured item is the least price among the
  entries of the model's rows in the market, of either condition, and the currency is that
  of an entry with that price; there is such an entry, as an item with no minimum is
  dropped.
\<close>

lemma featured_min_price_rows:
  assumes "featured q (Some wb) models baseUrl rng = Inr res"
    and "it \<in> set (res_items res)"
    and "list_all (\<lambda>r. \<not> key_clash (it_model it) (res_market res) r)
           (usedRows wb (res_market res) @ newRows wb (res_market res))"
  shows "\<exists>n. it_min_price it = JNum n \<and> n \<noteq> NaN
     \<and> (\<forall>e \<in> set (model_entries (usedRows wb (res_market res) @ newRows wb (res_market res))
                     (it_model it) (res_market res) (variants (buildCatalog wb (res_market res) rng))).
           \<exists>m. v_price (snd e) = JNum m \<and> \<not> num_less m n)
     \<and> (\<exists>e \<in> set (model_entries (usedRows wb (res_market res) @ newRows wb (res_market res))
                     (it_model it) (res_market res) (variants (buildCatalog wb (res_market res) rng))).
           v_price (snd e) = JNum n \<and> v_currency (snd e) = it_currency it)"
proof -
  let ?vs = "variants (buildCatalog wb (res_market res) rng)"
  note ip = featured_item_price [OF assms(1,2)]
  have pr: "\<forall>e \<in> set ?vs. priced e" using variants_priced by blast
  from ip(1) have nn: "\<not> nullish (fst (minPriceForModel ?vs (res_market res) (it_model it)))"
    unfolding ip(2) .
  from minPriceForModel_min [OF pr nn] obtain n where
    n: "fst (minPriceForModel ?vs (res_market res) (it_model it)) = JNum n" "n \<noteq> NaN"
    and lb: "\<forall>e \<in> set (filter (key_matches (it_model it) (res_market res)) ?vs).
           \<exists>m. v_price (snd e) = JNum m \<and> \<not> num_less m n"
    and org: "\<exists>e \<in> set (filter (key_matches (it_model it) (res_market res)) ?vs).
           v_price (snd e) = JNum n
         \<and> v_currency (snd e) = snd (minPriceForModel ?vs (res_market res) (it_model it))"
    by blast
  from org obtain e where "key_matches (it_model it) (res_market res) e" by auto
  then obtain c gb where "key_parts (fst e) = Some (it_model it, c, gb, res_market res)"
    by (auto simp: key_matches_def split: option.splits)
  note free = key_parts_free [OF this]
  note eq = key_matches_model_entries [OF assms(3) free, of rng]
  from n lb org show ?thesis unfolding eq ip(2) ip(3) by blast
qed

lemma rows_cross:
  "map (\<lambda>r. (r_model r, r_market r, r_price r)) (usedRows wb_cross ''AO'')
     = [(''iPhone 13'', ''AO'', JNum (Fin 500000)),
        (''iPhone 13|Pro|256|AO'', ''AO'', JNum (Fin 100000))]"
  "newRows wb_cross ''AO'' = []"
  by (simp_all add: wb_cross_def usedRows_def newRows_def retained_def normRow_def
      str_eval num_eval field_eval)

lemma catalog_cross:
  "buildCatalog wb_cross ''AO'' rng =
   \<lparr>products =
      [\<lparr>p_id = ''iphone-13'', p_model = ''iPhone 13'', p_type = ''iphone'',
         p_rating = synth_rating (rng 0), p_reviews = synth_reviews (rng 1),
         p_colors = default_palette, p_image = JStr ''/public/products/iphone-13.png'',
         p_usado = [Fin 128], p_novo = []\<rparr>],
    variants =
      [(''iPhone 13|usado|128|AO'', \<lparr>v_price = JNum (Fin 500000), v_currency = ''AOA''\<rparr>),
       (''iPhone 13|Pro|256|AO|usado|64|AO'',
        \<lparr>v_price = JNum (Fin 100000), v_currency = ''AOA''\<rparr>)]\<rparr>"
  by (simp add: wb_cross_def str_eval num_eval field_eval catalog_eval)

lemma available_cross: "modelsAvailable wb_cross ''luanda'' = [''iPhone 13'']"
  by (simp add: wb_cross_def modelsAvailable_def avail_step_def set_add_def str_eval field_eval)

lemma featured_cross:
  "featured (q_demo JUndef) (Some wb_cross) [] ''http://h'' rng =
     Inr \<lparr>res_market = ''AO'', res_count = Fin 8,
          res_items = [\<lparr>it_id = ''iphone-13'', it_model = ''iPhone 13'',
                         it_image = JStr ''http://h/public/products/iphone-13.png'',
                         it_min_price = JNum (Fin 100000), it_currency = ''AOA''\<rparr>]\<rparr>"
proof -
  have "featured_items wb_cross ''AO'' ''luanda'' ''http://h'' rng =
      Inr [\<lparr>it_id = ''iphone-13'', it_model = ''iPhone 13'',
             it_image = JStr ''http://h/public/products/iphone-13.png'',
             it_min_price = JNum (Fin 100000), it_currency = ''AOA''\<rparr>]"
    by (simp add: featured_items_def catalog_cross available_cross
        to_item_def absolute_image_def minPriceForModel_def min_step_def key_parts_def startsWith_def)
  then show ?thesis
    by (simp add: featured_def query_demo q_demo_def ordered_items_def clamp_count_def
        set_add_def js_or_def str_eval num_eval)
qed

text \<open>
  C4.  The minimum price of a featured model is to be the least price among the entries
  of the variant index of that model in the requested market.  In this workbook the model
  \<^verbatim>\<open>iPhone 13\<close> has one retained row, of price 500000, and one entry in the index; the
  other row is of the model \<^verbatim>\<open>iPhone 13|Pro|256|AO\<close> and has the price 100000.
  \<^verbatim>\<open>minPriceForModel\<close> splits every key at every bar and compares the first and the
  fourth part: the key of the second row reads as model \<^verbatim>\<open>iPhone 13\<close>, market \<^verbatim>\<open>AO\<close>, and
  the featured item of \<^verbatim>\<open>iPhone 13\<close> carries the minimum price 100000, the price of another
  model.  (When no key reads as the key of another model, the minimum price and its
  currency are as claimed: \<open>featured_min_price_rows\<close>.)
\<close>

theorem min_price_of_other_model:
  "map (\<lambda>r. (r_model r, r_market r, r_price r))
       (usedRows wb_cross ''AO'' @ newRows wb_cross ''AO'')
     = [(''iPhone 13'', ''AO'', JNum (Fin 500000)),
        (''iPhone 13|Pro|256|AO'', ''AO'', JNum (Fin 100000))]
   \<and> variants (buildCatalog wb_cross ''AO'' draws_half)
     = [(''iPhone 13|usado|128|AO'', \<lparr>v_price = JNum (Fin 500000), v_currency = ''AOA''\<rparr>),
        (''iPhone 13|Pro|256|AO|usado|64|AO'',
         \<lparr>v_price = JNum (Fin 100000), v_currency = ''AOA''\<rparr>)]
   \<and> model_entries (usedRows wb_cross ''AO'' @ newRows wb_cross ''AO'') ''iPhone 13'' ''AO''
       (variants (buildCatalog wb_cross ''AO'' draws_half))
     = [(''iPhone 13|usado|128|AO'', \<lparr>v_price = JNum (Fin 500000), v_currency = ''AOA''\<rparr>)]
   \<and> key_parts ''iPhone 13|Pro|256|AO|usado|64|AO'' = Some (''iPhone 13'', ''Pro'', ''256'', ''AO'')
   \<and> featured (q_demo JUndef) (Some wb_cross) [] ''http://h'' draws_half =
       Inr \<lparr>res_market = ''AO'', res_count = Fin 8,
            res_items = [\<lparr>it_id = ''iphone-13'', it_model = ''iPhone 13'',
                           it_image = JStr ''http://h/public/products/iphone-13.png'',
                           it_min_price = JNum (Fin 100000), it_currency = ''AOA''\<rparr>]\<rparr>"
proof -
  let ?rows = "usedRows wb_cross ''AO'' @ newRows wb_cross ''AO''"
  have rows: "map (\<lambda>r. (r_model r, r_market r, r_price r)) ?rows
     = [(''iPhone 13'', ''AO'', JNum (Fin 500000)),
        (''iPhone 13|Pro|256|AO'', ''AO'', JNum (Fin 100000))]"
    by (simp add: rows_cross)
  have keys: "map variant_key (filter (\<lambda>r. r_model r = ''iPhone 13'' \<and> r_market r = ''AO'') ?rows)
      = [''iPhone 13|usado|128|AO'']"
    by (simp add: wb_cross_def usedRows_def newRows_def retained_def normRow_def variant_key_def
        str_eval num_eval field_eval)
  have entries: "model_entries ?rows ''iPhone 13'' ''AO'' (variants (buildCatalog wb_cross ''AO'' draws_half))
      = [(''iPhone 13|usado|128|AO'', \<lparr>v_price = JNum (Fin 500000), v_currency = ''AOA''\<rparr>)]"
    unfolding model_entries_def keys by (simp add: catalog_cross)
  have parts: "key_parts ''iPhone 13|Pro|256|AO|usado|64|AO''
      = Some (''iPhone 13'', ''Pro'', ''256'', ''AO'')"
    by (simp add: key_parts_def)
  from rows entries parts show ?thesis by (simp add: catalog_cross featured_cross)
qed

end
